theory Spec2Isabelle
  imports Main "HOL-Library.AList" "HOL-Library.Sublist"
begin

section \<open>The add-on builder of \<open>aab/builder.py\<close>\<close>

text \<open>
  The development embeds \<open>src/aab/builder.py\<close>: the module function \<open>clean_repo\<close> and the
  class \<open>AddonBuilder\<close>. Python names are kept; a leading underscore, which an Isabelle
  name cannot start with, is dropped (\<open>_package\<close> is \<open>package\<close>), and an attribute of
  the instance carries the prefix \<open>self\<close> (\<open>self._version\<close> is \<open>self_version\<close>).
\<close>

subsection \<open>Python strings\<close>

text \<open>\<open>sep.join(xs)\<close> of Python.\<close>

fun str_join :: "string \<Rightarrow> string list \<Rightarrow> string" where
  "str_join sep [] = []"
| "str_join sep [x] = x"
| "str_join sep (x # y # ys) = x @ sep @ str_join sep (y # ys)"

subsection \<open>Values of the absent modules\<close>

text \<open>
  A member of the enumeration \<open>QtVersion\<close> of the absent module \<open>aab.ui\<close>. The builder
  reads nothing of it but the attribute \<open>name\<close>, which every Python enumeration member
  has.
\<close>

datatype QtVersion = QtVersion (name: string)

text \<open>
  The object \<open>Config()\<close> of the absent module \<open>aab.config\<close>, a mapping the builder reads
  at the keys \<open>display_name\<close>, \<open>module_name\<close> and \<open>repo_name\<close> (the fields below, prefixed
  since \<open>module_name\<close> is an Isabelle keyword); it is loaded and validated outside this
  file.
\<close>

record Config =
  cfg_display_name :: string
  cfg_module_name :: string
  cfg_repo_name :: string

subsection \<open>The name of the package file\<close>

text \<open>
  Lines 134 to 144 of \<open>AddonBuilder._package\<close>: the file name built by \<open>str.format\<close>
  from the configuration's \<open>repo_name\<close>, the builder's version, the target names joined
  by \<open>+\<close>, and the distribution type.
\<close>

definition out_name :: "Config \<Rightarrow> string \<Rightarrow> QtVersion list \<Rightarrow> string \<Rightarrow> string" where
  "out_name config version qt_versions disttype =
     (let ext = ''ankiaddon'';
          qt_version_str = str_join ''+'' (map name qt_versions);
          dist = (if disttype = ''local'' then [] else ''-'' @ disttype)
      in cfg_repo_name config @ ''-'' @ version @ ''-'' @ qt_version_str @ dist @ ''.'' @ ext)"

subsection \<open>Errors\<close>

text \<open>
  Every exception the builder can meet is a value: \<open>sys.exit(1)\<close> raises
  \<open>SystemExit\<close>, the file operations raise the \<open>OSError\<close>s below, and an absent
  collaborator (Git, the manifest writer, the UI builder, the caller's callback) may fail
  with an error of its own.
\<close>

datatype error =
    SystemExit int
  | FileNotFoundError
  | FileExistsError
  | IsADirectoryError
  | NotADirectoryError
  | PermissionError
  | SameFileError
  | External string

subsection \<open>Paths\<close>

text \<open>
  A \<open>pathlib.Path\<close> is the list of its components below the file system's root; the
  paths of the builder all start from \<open>PATH_ROOT\<close> and \<open>PATH_DIST\<close>, which are
  absolute. \<open>p / s\<close> parses the string \<open>s\<close>: it is split at the slashes, empty
  segments and \<open>.\<close> are dropped, and an absolute \<open>s\<close> replaces \<open>p\<close>.
  \<open>path_str\<close> is \<open>str(p)\<close>. The operating system resolves a path string to its
  segments (\<open>..\<close> is not interpreted: no directory of the model lists such a name).
\<close>

type_synonym path = "string list"

fun split_sep :: "char \<Rightarrow> string \<Rightarrow> string list" where
  "split_sep c [] = [[]]"
| "split_sep c (x # xs) =
     (if x = c then [] # split_sep c xs
      else (case split_sep c xs of [] \<Rightarrow> [[x]] | w # ws \<Rightarrow> (x # w) # ws))"

definition parts :: "string \<Rightarrow> path" where
  "parts s = filter (\<lambda>seg. seg \<noteq> [] \<and> seg \<noteq> ''.'') (split_sep CHR ''/'' s)"

definition path_div :: "path \<Rightarrow> string \<Rightarrow> path" where
  "path_div p s = (if take 1 s = ''/'' then parts s else p @ parts s)"

definition path_str :: "path \<Rightarrow> string" where
  "path_str p = (if p = [] then ''/'' else concat (map (\<lambda>seg. ''/'' @ seg) p))"

text \<open>\<open>os.path.join(a, b)\<close> of \<open>posixpath\<close>, for two arguments.\<close>

definition os_path_join :: "string \<Rightarrow> string \<Rightarrow> string" where
  "os_path_join a b =
     (if take 1 b = ''/'' then b
      else if a = [] \<or> last a = CHR ''/'' then a @ b
      else a @ ''/'' @ b)"

text \<open>\<open>s.rfind(c)\<close>: the last index of \<open>c\<close> in \<open>s\<close>, \<open>None\<close> for Python's \<open>-1\<close>.\<close>

fun rfind :: "char \<Rightarrow> string \<Rightarrow> nat option" where
  "rfind c [] = None"
| "rfind c (x # xs) =
     (case rfind c xs of
        Some i \<Rightarrow> Some (Suc i)
      | None \<Rightarrow> (if x = c then Some 0 else None))"

text \<open>
  \<open>PurePath.stem\<close> of a file name: the name up to its last dot, when that dot is neither
  the first nor the last character.
\<close>

definition stem :: "string \<Rightarrow> string" where
  "stem nm =
     (case rfind CHR ''.'' nm of
        None \<Rightarrow> nm
      | Some i \<Rightarrow> (if 0 < i \<and> i < length nm - 1 then take i nm else nm))"

subsection \<open>The file system\<close>

text \<open>
  The file system is a tree. A file holds a content and has a permission: whether the
  process may open it for reading, and whether for writing (either open raises
  \<open>PermissionError\<close> otherwise); a file the process creates may be read and written.
  A directory lists its entries in the order \<open>os.scandir\<close> yields them; directories
  carry no permission, the process may list and change them all. The content of an
  archive is the list of its entries, each a name and a content.
\<close>

datatype content = Bytes string | Zip "(string \<times> content) list"

datatype perm = Perm (can_read: bool) (can_write: bool)

abbreviation rw :: perm where
  "rw \<equiv> Perm True True"

datatype node = File perm content | Dir "(string \<times> node) list"

fun fs_lookup :: "node \<Rightarrow> path \<Rightarrow> node option" where
  "fs_lookup n [] = Some n"
| "fs_lookup (File r c) (x # xs) = None"
| "fs_lookup (Dir es) (x # xs) =
     (case map_of es x of None \<Rightarrow> None | Some ch \<Rightarrow> fs_lookup ch xs)"

text \<open>
  \<open>fs_store p v n\<close> puts the node \<open>v\<close> at \<open>p\<close> and \<open>fs_remove p n\<close> takes the entry at \<open>p\<close>
  away; both leave \<open>n\<close> as it is when the parent of \<open>p\<close> is no directory of \<open>n\<close>.
\<close>

fun fs_store :: "path \<Rightarrow> node \<Rightarrow> node \<Rightarrow> node" where
  "fs_store [] v n = v"
| "fs_store (x # xs) v (File r c) = File r c"
| "fs_store (x # xs) v (Dir es) =
     (if xs = [] then Dir (AList.update x v es)
      else (case map_of es x of
              None \<Rightarrow> Dir es
            | Some ch \<Rightarrow> Dir (AList.update x (fs_store xs v ch) es)))"

fun fs_remove :: "path \<Rightarrow> node \<Rightarrow> node" where
  "fs_remove [] n = n"
| "fs_remove (x # xs) (File r c) = File r c"
| "fs_remove (x # xs) (Dir es) =
     (if xs = [] then Dir (AList.delete x es)
      else (case map_of es x of
              None \<Rightarrow> Dir es
            | Some ch \<Rightarrow> Dir (AList.update x (fs_remove xs ch) es)))"

text \<open>
  How the operating system resolves a path for an operation: a missing component is
  \<open>FileNotFoundError\<close>, a regular file where a directory has to be passed is
  \<open>NotADirectoryError\<close>.
\<close>

fun resolve :: "node \<Rightarrow> path \<Rightarrow> error + node" where
  "resolve n [] = Inr n"
| "resolve (File r c) (x # xs) = Inl NotADirectoryError"
| "resolve (Dir es) (x # xs) =
     (case map_of es x of None \<Rightarrow> Inl FileNotFoundError | Some ch \<Rightarrow> resolve ch xs)"

text \<open>\<open>Path.exists()\<close> and \<open>Path.is_dir()\<close>, which are false when the path cannot be resolved.\<close>

definition path_exists :: "node \<Rightarrow> path \<Rightarrow> bool" where
  "path_exists root p = (fs_lookup root p \<noteq> None)"

definition path_is_dir :: "node \<Rightarrow> path \<Rightarrow> bool" where
  "path_is_dir root p = (case fs_lookup root p of Some (Dir es) \<Rightarrow> True | _ \<Rightarrow> False)"

text \<open>\<open>Path.unlink()\<close>: removes a file; a missing path and a directory are errors.\<close>

definition unlink :: "path \<Rightarrow> node \<Rightarrow> error + node" where
  "unlink p root =
     (case resolve root p of
        Inl e \<Rightarrow> Inl e
      | Inr (Dir es) \<Rightarrow> Inl IsADirectoryError
      | Inr (File r c) \<Rightarrow> Inr (fs_remove p root))"

text \<open>\<open>shutil.rmtree(p)\<close>: removes a directory with all below it.\<close>

definition rmtree :: "path \<Rightarrow> node \<Rightarrow> error + node" where
  "rmtree p root =
     (case resolve root p of
        Inl e \<Rightarrow> Inl e
      | Inr (File r c) \<Rightarrow> Inl NotADirectoryError
      | Inr (Dir es) \<Rightarrow> (if p = [] then Inl PermissionError else Inr (fs_remove p root)))"

text \<open>
  \<open>Path.mkdir(parents=True)\<close>: creates the directory and its missing ancestors; the
  path itself must not exist yet.
\<close>

fun mkdir_parents :: "path \<Rightarrow> node \<Rightarrow> error + node" where
  "mkdir_parents [] n = Inl FileExistsError"
| "mkdir_parents (x # xs) (File r c) = Inl NotADirectoryError"
| "mkdir_parents (x # xs) (Dir es) =
     (case map_of es x of
        None \<Rightarrow>
          (if xs = [] then Inr (Dir (es @ [(x, Dir [])]))
           else (case mkdir_parents xs (Dir []) of
                   Inl e \<Rightarrow> Inl e
                 | Inr ch \<Rightarrow> Inr (Dir (es @ [(x, ch)]))))
      | Some ch \<Rightarrow>
          (if xs = [] then Inl FileExistsError
           else (case mkdir_parents xs ch of
                   Inl e \<Rightarrow> Inl e
                 | Inr ch' \<Rightarrow> Inr (Dir (AList.update x ch' es)))))"

text \<open>
  Opening \<open>p\<close> for writing (mode \<open>"w"\<close>) and writing \<open>c\<close>: the parent must resolve to a
  directory; a directory at \<open>p\<close> is \<open>IsADirectoryError\<close>; a file at \<open>p\<close> must be
  writable, and keeps its permission with the new content; otherwise the file is
  created.
\<close>

definition write_file :: "path \<Rightarrow> content \<Rightarrow> node \<Rightarrow> error + node" where
  "write_file p c root =
     (if p = [] then Inl IsADirectoryError
      else (case resolve root (butlast p) of
              Inl e \<Rightarrow> Inl e
            | Inr (File r old) \<Rightarrow> Inl NotADirectoryError
            | Inr (Dir es) \<Rightarrow>
                (case map_of es (last p) of
                   None \<Rightarrow> Inr (fs_store p (File rw c) root)
                 | Some (Dir sub) \<Rightarrow> Inl IsADirectoryError
                 | Some (File r old) \<Rightarrow>
                     (if can_write r then Inr (fs_store p (File r c) root)
                      else Inl PermissionError))))"

text \<open>
  \<open>shutil.copyfile(src, dst)\<close>: source and target must not be the same existing file
  (there are no links in the model: the same path); the source is opened for reading,
  then the target for writing.
\<close>

definition copyfile :: "path \<Rightarrow> path \<Rightarrow> node \<Rightarrow> error + node" where
  "copyfile src dst root =
     (if src = dst \<and> path_exists root src then Inl SameFileError
      else (case resolve root src of
              Inl e \<Rightarrow> Inl e
            | Inr (Dir es) \<Rightarrow> Inl IsADirectoryError
            | Inr (File r c) \<Rightarrow>
                (if can_read r then write_file dst c root else Inl PermissionError)))"

text \<open>\<open>shutil.copymode(src, dst)\<close>: the target takes the permission of the source.\<close>

definition copymode :: "path \<Rightarrow> path \<Rightarrow> node \<Rightarrow> error + node" where
  "copymode src dst root =
     (case resolve root src of
        Inl e \<Rightarrow> Inl e
      | Inr (Dir es) \<Rightarrow> Inr root
      | Inr (File r c) \<Rightarrow>
          (case resolve root dst of
             Inl e \<Rightarrow> Inl e
           | Inr (Dir sub) \<Rightarrow> Inr root
           | Inr (File r' c') \<Rightarrow> Inr (fs_store dst (File r c') root)))"

text \<open>
  \<open>shutil.copy(src, dst)\<close>: into \<open>dst\<close> when that is a directory; the content is
  copied, then the permission.
\<close>

definition shutil_copy :: "path \<Rightarrow> path \<Rightarrow> node \<Rightarrow> error + node" where
  "shutil_copy src dst root =
     (let dst' = (if path_is_dir root dst \<and> src \<noteq> [] then dst @ [last src] else dst)
      in (case copyfile src dst' root of
            Inl e \<Rightarrow> Inl e
          | Inr root' \<Rightarrow> copymode src dst' root'))"

text \<open>
  \<open>p.glob(pre + "*")\<close>: the entries of the directory \<open>p\<close> whose names start with \<open>pre\<close>,
  files and directories alike, in the order of the listing.
\<close>

definition glob_prefix :: "node \<Rightarrow> path \<Rightarrow> string \<Rightarrow> path list" where
  "glob_prefix root p pre =
     (case fs_lookup root p of
        Some (Dir es) \<Rightarrow> map (\<lambda>nm. p @ [nm]) (filter (prefix pre) (map fst es))
      | _ \<Rightarrow> [])"

text \<open>
  \<open>os.walk(top)\<close>, top down: for each directory the triple of its path string, the names
  of its subdirectories and the names of its files, then the walks of the
  subdirectories, each under \<open>os.path.join(top, name)\<close>. A \<open>top\<close> that is no directory
  yields nothing (\<open>os.walk\<close> ignores the error of the listing).
\<close>

fun is_dir_node :: "node \<Rightarrow> bool" where
  "is_dir_node (Dir es) = True"
| "is_dir_node (File r c) = False"

definition dirnames :: "(string \<times> node) list \<Rightarrow> string list" where
  "dirnames es = map fst (filter (\<lambda>e. is_dir_node (snd e)) es)"

definition filenames :: "(string \<times> node) list \<Rightarrow> string list" where
  "filenames es = map fst (filter (\<lambda>e. \<not> is_dir_node (snd e)) es)"

fun os_walk :: "string \<Rightarrow> node \<Rightarrow> (string \<times> string list \<times> string list) list"
  and os_walk_dirs :: "string \<Rightarrow> (string \<times> node) list \<Rightarrow> (string \<times> string list \<times> string list) list"
where
  "os_walk top_dir (File r c) = []"
| "os_walk top_dir (Dir es) = (top_dir, dirnames es, filenames es) # os_walk_dirs top_dir es"
| "os_walk_dirs top_dir [] = []"
| "os_walk_dirs top_dir (e # es) =
     (if is_dir_node (snd e) then os_walk (os_path_join top_dir (fst e)) (snd e) else [])
     @ os_walk_dirs top_dir es"

definition os_walk_str :: "node \<Rightarrow> string \<Rightarrow> (string \<times> string list \<times> string list) list" where
  "os_walk_str root top_dir = (case fs_lookup root (parts top_dir) of None \<Rightarrow> [] | Some n \<Rightarrow> os_walk top_dir n)"

subsection \<open>The world and the collaborators\<close>

text \<open>
  What the builder does to the outside is written to a log, one event per call, in the
  order of the calls: the messages it logs, the file operations, and the calls of the
  collaborators.
\<close>

datatype event =
    Log_info string
  | Log_error string
  | Rmtree path
  | Purge string "string list" bool
  | Mkdir path
  | Git_archive string path
  | Copyfile path path
  | Shutil_copy path path
  | Copy_recursively path path
  | Callback_archive
  | Write_manifest string string path
  | UI_build QtVersion "string option"
  | Create_qt_shim
  | Unlink path
  | Zip_open path
  | Zip_write string string
  | Zip_close path

record world =
  fs :: node
  log :: "event list"

text \<open>
  The modules \<open>aab/__init__.py\<close>, \<open>aab.git\<close>, \<open>aab.utils\<close>, \<open>aab.manifest\<close>, \<open>aab.ui\<close>
  and \<open>aab.config\<close> are not part of the source at hand; what the builder takes from
  them is a parameter: the two path constants, the version parser and the archiver of
  \<open>Git\<close>, \<open>call_shell\<close>, \<open>purge\<close>, \<open>copy_recursively\<close>, the manifest writer, the
  configuration, and of \<open>UIBuilder\<close> the method \<open>build\<close>, the attribute \<open>_gui_path\<close>
  and the method \<open>create_qt_shim\<close> (each for the root the builder was made with). The
  queries read the file system; the others change it or fail.
\<close>

record env =
  PATH_ROOT :: path
  PATH_DIST :: path
  git_parse_version :: "string option \<Rightarrow> node \<Rightarrow> string"
  call_shell :: "string \<Rightarrow> node \<Rightarrow> string"
  git_archive :: "string \<Rightarrow> path \<Rightarrow> node \<Rightarrow> error + node"
  purge :: "string \<Rightarrow> string list \<Rightarrow> bool \<Rightarrow> node \<Rightarrow> error + node"
  copy_recursively :: "path \<Rightarrow> path \<Rightarrow> node \<Rightarrow> error + node"
  generate_and_write_manifest :: "Config \<Rightarrow> string \<Rightarrow> string \<Rightarrow> path \<Rightarrow> node \<Rightarrow> error + node"
  load_config :: Config
  ui_build :: "path \<Rightarrow> QtVersion \<Rightarrow> string option \<Rightarrow> node \<Rightarrow> error + node"
  ui_gui_path :: "path \<Rightarrow> path"
  ui_create_qt_shim :: "path \<Rightarrow> node \<Rightarrow> error + node"

text \<open>
  A statement of the builder takes the world and returns a value or an error, and the
  world it leaves. \<open>bind\<close> runs the second statement when the first returned, and
  propagates the error otherwise (it is used for the loop over an open archive as well,
  whose state is the archive's entries with the world).
\<close>

type_synonym 'a stmt = "world \<Rightarrow> (error + 'a) \<times> world"

definition bind :: "('s \<Rightarrow> (error + 'a) \<times> 's) \<Rightarrow> ('a \<Rightarrow> 's \<Rightarrow> (error + 'b) \<times> 's)
    \<Rightarrow> 's \<Rightarrow> (error + 'b) \<times> 's" where
  "bind m k w = (case m w of (Inl e, w') \<Rightarrow> (Inl e, w') | (Inr x, w') \<Rightarrow> k x w')"

definition return :: "'a \<Rightarrow> 's \<Rightarrow> (error + 'a) \<times> 's" where
  "return x w = (Inr x, w)"

definition raise :: "error \<Rightarrow> 'a stmt" where
  "raise e w = (Inl e, w)"

definition emit :: "event \<Rightarrow> unit stmt" where
  "emit ev w = (Inr (), w\<lparr>log := log w @ [ev]\<rparr>)"

text \<open>A call that changes the file system: logged when made, then done or failed.\<close>

definition effect :: "event \<Rightarrow> (node \<Rightarrow> error + node) \<Rightarrow> unit stmt" where
  "effect ev f w =
     (let w1 = w\<lparr>log := log w @ [ev]\<rparr>
      in (case f (fs w) of Inl e \<Rightarrow> (Inl e, w1) | Inr n \<Rightarrow> (Inr (), w1\<lparr>fs := n\<rparr>)))"

definition only_if :: "bool \<Rightarrow> unit stmt \<Rightarrow> unit stmt" where
  "only_if b m = (if b then m else return ())"

subsection \<open>\<open>clean_repo\<close>\<close>

definition trash_patterns :: "string list" where
  "trash_patterns = [''*.pyc'', ''*.pyo'', ''__pycache__'']"

definition clean_repo :: "env \<Rightarrow> unit stmt" where
  "clean_repo E =
     bind (emit (Log_info ''Cleaning repository...'')) (\<lambda>_.
     bind (\<lambda>w. only_if (path_exists (fs w) (PATH_DIST E))
                  (effect (Rmtree (PATH_DIST E)) (rmtree (PATH_DIST E))) w) (\<lambda>_.
     effect (Purge ''.'' trash_patterns True) (purge E ''.'' trash_patterns True)))"

subsection \<open>The class \<open>AddonBuilder\<close>\<close>

text \<open>The instance: the attributes \<open>__init__\<close> sets.\<close>

record AddonBuilder =
  self_version :: string
  self_callback_archive :: "(node \<Rightarrow> error + node) option"
  self_config :: Config
  self_path_dist_module :: path

text \<open>The class attributes.\<close>

definition paths_licenses :: "env \<Rightarrow> path list" where
  "paths_licenses E = [PATH_DIST E, path_div (PATH_DIST E) ''resources'']"

definition path_optional_icons :: "env \<Rightarrow> path" where
  "path_optional_icons E =
     path_div (path_div (path_div (PATH_ROOT E) ''resources'') ''icons'') ''optional''"

definition path_changelog :: "env \<Rightarrow> path" where
  "path_changelog E = path_div (PATH_DIST E) ''CHANGELOG.md''"

text \<open>
  Lines 67 to 72 of \<open>__init__\<close>: the version the builder settles on, which may be empty.
\<close>

definition init_version :: "env \<Rightarrow> string option \<Rightarrow> node \<Rightarrow> string" where
  "init_version E version root =
     (let v = git_parse_version E version root;
          git_status = call_shell E ''git status --porcelain'' root
      in if v = ''dev'' \<and> git_status = []
         then git_parse_version E (Some ''current'') root
         else v)"

text \<open>
  \<open>AddonBuilder.__init__\<close>: an empty version is logged and ends the process by
  \<open>sys.exit(1)\<close>; otherwise the instance is made.
\<close>

definition init :: "env \<Rightarrow> string option \<Rightarrow> (node \<Rightarrow> error + node) option \<Rightarrow> AddonBuilder stmt" where
  "init E version callback_archive w =
     (let v = init_version E version (fs w)
      in if v = []
         then bind (emit (Log_error ''Error: Version could not be determined through Git''))
                (\<lambda>_. raise (SystemExit 1)) w
         else return \<lparr>self_version = v,
                       self_callback_archive = callback_archive,
                       self_config = load_config E,
                       self_path_dist_module =
                         path_div (path_div (PATH_DIST E) ''src'')
                           (cfg_module_name (load_config E))\<rparr> w)"

text \<open>\<open>create_dist\<close>.\<close>

definition create_dist :: "env \<Rightarrow> AddonBuilder \<Rightarrow> unit stmt" where
  "create_dist E self =
     bind (emit (Log_info (''Preparing source tree for '' @ cfg_display_name (self_config self)
                           @ '' '' @ self_version self @ '' ...''))) (\<lambda>_.
     bind (clean_repo E) (\<lambda>_.
     bind (effect (Mkdir (PATH_DIST E)) (mkdir_parents (PATH_DIST E))) (\<lambda>_.
     effect (Git_archive (self_version self) (PATH_DIST E))
       (git_archive E (self_version self) (PATH_DIST E)))))"

text \<open>\<open>_copy_licenses\<close>: the inner loop over the matches of one directory, and the outer
  loop over the candidate directories.\<close>

fun copy_license_files :: "AddonBuilder \<Rightarrow> path list \<Rightarrow> unit stmt" where
  "copy_license_files self [] = return ()"
| "copy_license_files self (file # files) =
     (let target = path_div (self_path_dist_module self) (stem (last file) @ ''.txt'')
      in bind (effect (Copyfile file target) (copyfile file target))
           (\<lambda>_. copy_license_files self files))"

fun copy_license_dirs :: "AddonBuilder \<Rightarrow> path list \<Rightarrow> unit stmt" where
  "copy_license_dirs self [] = return ()"
| "copy_license_dirs self (p # ps) =
     bind (\<lambda>w. if \<not> path_is_dir (fs w) p then return () w
                else copy_license_files self (glob_prefix (fs w) p ''LICENSE'') w)
       (\<lambda>_. copy_license_dirs self ps)"

definition copy_licenses :: "env \<Rightarrow> AddonBuilder \<Rightarrow> unit stmt" where
  "copy_licenses E self =
     bind (emit (Log_info ''Copying licenses...''))
       (\<lambda>_. copy_license_dirs self (paths_licenses E))"

text \<open>\<open>_copy_changelog\<close> and \<open>_copy_optional_icons\<close>.\<close>

definition copy_changelog :: "env \<Rightarrow> AddonBuilder \<Rightarrow> unit stmt" where
  "copy_changelog E self =
     bind (emit (Log_info ''Copying changelog...'')) (\<lambda>_.
       (let target = path_div (self_path_dist_module self) ''CHANGELOG.md''
        in effect (Shutil_copy (path_changelog E) target)
             (shutil_copy (path_changelog E) target)))"

definition copy_optional_icons :: "env \<Rightarrow> unit stmt" where
  "copy_optional_icons E =
     bind (emit (Log_info ''Copying additional icons...'')) (\<lambda>_.
       (let dst = path_div (path_div (path_div (PATH_DIST E) ''resources'') ''icons'') []
        in effect (Copy_recursively (path_optional_icons E) dst)
             (copy_recursively E (path_optional_icons E) dst)))"

text \<open>\<open>_write_manifest\<close>.\<close>

definition write_manifest :: "env \<Rightarrow> AddonBuilder \<Rightarrow> string \<Rightarrow> unit stmt" where
  "write_manifest E self disttype =
     effect (Write_manifest (self_version self) disttype (self_path_dist_module self))
       (generate_and_write_manifest E (self_config self) (self_version self) disttype
          (self_path_dist_module self))"

text \<open>\<open>build_dist\<close>: the loop over the targets, then the method.\<close>

fun build_ui :: "env \<Rightarrow> QtVersion list \<Rightarrow> string option \<Rightarrow> unit stmt" where
  "build_ui E [] pyenv = return ()"
| "build_ui E (qt_version # qt_versions) pyenv =
     bind (effect (UI_build qt_version pyenv) (ui_build E (PATH_DIST E) qt_version pyenv))
       (\<lambda>_. build_ui E qt_versions pyenv)"

definition build_dist :: "env \<Rightarrow> AddonBuilder \<Rightarrow> QtVersion list \<Rightarrow> string \<Rightarrow> string option \<Rightarrow> unit stmt" where
  "build_dist E self qt_versions disttype pyenv =
     bind (copy_licenses E self) (\<lambda>_.
     bind (\<lambda>w. only_if (path_exists (fs w) (path_changelog E)) (copy_changelog E self) w) (\<lambda>_.
     bind (\<lambda>w. only_if (path_exists (fs w) (path_optional_icons E)) (copy_optional_icons E) w) (\<lambda>_.
     bind (case self_callback_archive self of
             None \<Rightarrow> return ()
           | Some callback \<Rightarrow> effect Callback_archive callback) (\<lambda>_.
     bind (write_manifest E self disttype) (\<lambda>_.
     bind (build_ui E qt_versions pyenv) (\<lambda>_.
     (\<lambda>w. only_if (path_exists (fs w) (ui_gui_path E (PATH_DIST E)))
             (bind (emit (Log_info ''Writing Qt compatibility shim...'')) (\<lambda>_.
              bind (effect Create_qt_shim (ui_create_qt_shim E (PATH_DIST E))) (\<lambda>_.
              emit (Log_info ''Done.'')))) w)))))))"

text \<open>
  \<open>_package\<close>. The archive object \<open>myzip\<close> is the list of the entries written so far.
  \<open>ZipFile(out_path, "w")\<close> creates the file; \<open>myzip.write(filename, arcname)\<close> reads the
  file the string \<open>filename\<close> names and adds it under \<open>arcname\<close>; leaving the \<open>with\<close>
  block closes the archive, after the loop and after an exception alike, which writes the
  directory of the entries written so far to the file; until then the file at the output
  path is the empty archive. \<open>os.walk\<close> lists the tree as it is once the archive is
  open.
\<close>

type_synonym zipstate = "(string \<times> content) list \<times> world"

definition zip_write :: "string \<Rightarrow> string \<Rightarrow> zipstate \<Rightarrow> (error + unit) \<times> zipstate" where
  "zip_write filename arcname s =
     (case s of (entries, w) \<Rightarrow>
        (let w1 = w\<lparr>log := log w @ [Zip_write filename arcname]\<rparr>
         in (case resolve (fs w) (parts filename) of
               Inl e \<Rightarrow> (Inl e, (entries, w1))
             | Inr (Dir es) \<Rightarrow> (Inr (), (entries @ [(arcname @ ''/'', Bytes [])], w1))
             | Inr (File r c) \<Rightarrow>
                 (if can_read r then (Inr (), (entries @ [(arcname, c)], w1))
                  else (Inl PermissionError, (entries, w1))))))"

fun write_files :: "nat \<Rightarrow> string \<Rightarrow> string list \<Rightarrow> zipstate \<Rightarrow> (error + unit) \<times> zipstate" where
  "write_files rootlen root [] = return ()"
| "write_files rootlen root (file # files) =
     (let path = os_path_join root file
      in bind (zip_write path (drop rootlen path)) (\<lambda>_. write_files rootlen root files))"

fun write_walk :: "nat \<Rightarrow> (string \<times> string list \<times> string list) list \<Rightarrow> zipstate
    \<Rightarrow> (error + unit) \<times> zipstate" where
  "write_walk rootlen [] = return ()"
| "write_walk rootlen (t # ts) =
     bind (write_files rootlen (fst t) (snd (snd t))) (\<lambda>_. write_walk rootlen ts)"

definition zip_tree :: "path \<Rightarrow> path \<Rightarrow> unit stmt" where
  "zip_tree out_path to_zip w =
     (case effect (Zip_open out_path) (write_file out_path (Zip [])) w of
        (Inl e, w1) \<Rightarrow> (Inl e, w1)
      | (Inr _, w1) \<Rightarrow>
          (let rootlen = length (path_str to_zip) + 1
           in (case write_walk rootlen (os_walk_str (fs w1) (path_str to_zip)) ([], w1) of
                 (r, (entries, w2)) \<Rightarrow>
                   (r, w2\<lparr>fs := fs_store out_path (File rw (Zip entries)) (fs w2),
                           log := log w2 @ [Zip_close out_path]\<rparr>))))"

definition package :: "env \<Rightarrow> AddonBuilder \<Rightarrow> QtVersion list \<Rightarrow> string \<Rightarrow> path stmt" where
  "package E self qt_versions disttype =
     bind (emit (Log_info ''Packaging add-on...'')) (\<lambda>_.
       (let config = self_config self;
            to_zip = self_path_dist_module self;
            nm = out_name config (self_version self) qt_versions disttype;
            out_path = path_div (path_div (PATH_ROOT E) ''build'') nm
        in bind (\<lambda>w. only_if (path_exists (fs w) out_path)
                        (effect (Unlink out_path) (unlink out_path)) w) (\<lambda>_.
           bind (zip_tree out_path to_zip) (\<lambda>_.
           bind (emit (Log_info (''Package saved as '' @ nm))) (\<lambda>_.
           bind (emit (Log_info ''Done.'')) (\<lambda>_.
           return out_path))))))"

text \<open>\<open>package_dist\<close> and \<open>build\<close>.\<close>

definition package_dist :: "env \<Rightarrow> AddonBuilder \<Rightarrow> QtVersion list \<Rightarrow> string \<Rightarrow> path stmt" where
  "package_dist E self qt_versions disttype = package E self qt_versions disttype"

definition build :: "env \<Rightarrow> AddonBuilder \<Rightarrow> QtVersion list \<Rightarrow> string \<Rightarrow> string option \<Rightarrow> path stmt" where
  "build E self qt_versions disttype pyenv =
     bind (emit (Log_info ([CHR 0x0A] @ ''--- Building '' @ cfg_display_name (self_config self)
                           @ '' '' @ self_version self @ '' for '' @ disttype @ '' ---''
                           @ [CHR 0x0A]))) (\<lambda>_.
     bind (create_dist E self) (\<lambda>_.
     bind (build_dist E self qt_versions disttype pyenv) (\<lambda>_.
     package_dist E self qt_versions disttype)))"

text \<open>
  A build from outside: the instance is made, then \<open>build\<close> is called on it; when
  \<open>__init__\<close> raises there is no instance to call.
\<close>

definition make_and_build :: "env \<Rightarrow> string option \<Rightarrow> (node \<Rightarrow> error + node) option
    \<Rightarrow> QtVersion list \<Rightarrow> string \<Rightarrow> string option \<Rightarrow> path stmt" where
  "make_and_build E version callback_archive qt_versions disttype pyenv =
     bind (init E version callback_archive) (\<lambda>self. build E self qt_versions disttype pyenv)"

section \<open>Notions of the specification\<close>

subsection \<open>The name of the package file, as specified\<close>

text \<open>
  The name as the specification words it:
  \<open>{repo_name}-{version}-{targets joined by "+"}[-{dist_type}].ankiaddon\<close>, the part in
  brackets left out for the default distribution type.
\<close>

fun joined_targets :: "string list \<Rightarrow> string" where
  "joined_targets [] = []"
| "joined_targets (t # ts) = foldl (\<lambda>acc s. acc @ ''+'' @ s) t ts"

definition spec_name :: "string \<Rightarrow> string \<Rightarrow> string list \<Rightarrow> string \<Rightarrow> string" where
  "spec_name repo version targets dist_type =
     concat [repo, ''-'', version, ''-'', joined_targets targets]
     @ (if dist_type \<noteq> ''local'' then ''-'' @ dist_type else [])
     @ ''.ankiaddon''"

subsection \<open>Traces\<close>


text \<open>
  The steps of the augmentation, in the order the specification gives them: the copy of
  a license (0), of the changelog (1), of the optional icons (2), the caller's callback
  (3), the manifest (4), the compilation for a target (5), the compatibility shim (6).
  Log messages and the events of other stages are no steps.
\<close>

fun is_step :: "event \<Rightarrow> bool" where
  "is_step (Copyfile src dst) = True"
| "is_step (Shutil_copy src dst) = True"
| "is_step (Copy_recursively src dst) = True"
| "is_step Callback_archive = True"
| "is_step (Write_manifest v d p) = True"
| "is_step (UI_build q py) = True"
| "is_step Create_qt_shim = True"
| "is_step ev = False"

fun phase :: "event \<Rightarrow> nat" where
  "phase (Copyfile src dst) = 0"
| "phase (Shutil_copy src dst) = 1"
| "phase (Copy_recursively src dst) = 2"
| "phase Callback_archive = 3"
| "phase (Write_manifest v d p) = 4"
| "phase (UI_build q py) = 5"
| "phase Create_qt_shim = 6"
| "phase ev = 0"

definition steps :: "event list \<Rightarrow> event list" where
  "steps tr = filter is_step tr"

definition phases :: "event list \<Rightarrow> nat list" where
  "phases tr = map phase (steps tr)"

definition from_phase :: "nat \<Rightarrow> event list \<Rightarrow> bool" where
  "from_phase k tr = (sorted (phases tr) \<and> (\<forall>p \<in> set (phases tr). k \<le> p))"

definition at_phase :: "nat \<Rightarrow> event list \<Rightarrow> bool" where
  "at_phase k tr = (\<forall>p \<in> set (phases tr). p = k)"

subsection \<open>Stages as lists of steps\<close>

text \<open>
  The specification describes a stage as steps taken in a fixed order, some of them
  only under a condition. A step is given by the calls it makes when it is started on a
  file system, none when its condition does not hold there; a call is named by the
  event it leaves in the log. \<open>call\<close> is what a call does to the file system: the file
  operation, or the collaborator of the environment with the arguments of the event, or
  the builder's callback; a message changes nothing (nor do the events of the archive,
  which belong to the packaging and are no calls of a step).
\<close>

fun call :: "env \<Rightarrow> AddonBuilder \<Rightarrow> event \<Rightarrow> node \<Rightarrow> error + node" where
  "call E self (Rmtree p) = rmtree p"
| "call E self (Purge d ps r) = purge E d ps r"
| "call E self (Mkdir p) = mkdir_parents p"
| "call E self (Git_archive v p) = git_archive E v p"
| "call E self (Copyfile src dst) = copyfile src dst"
| "call E self (Shutil_copy src dst) = shutil_copy src dst"
| "call E self (Copy_recursively src dst) = copy_recursively E src dst"
| "call E self Callback_archive =
     (case self_callback_archive self of None \<Rightarrow> Inr | Some callback \<Rightarrow> callback)"
| "call E self (Write_manifest v d p) = generate_and_write_manifest E (self_config self) v d p"
| "call E self (UI_build q py) = ui_build E (PATH_DIST E) q py"
| "call E self Create_qt_shim = ui_create_qt_shim E (PATH_DIST E)"
| "call E self (Unlink p) = unlink p"
| "call E self ev = Inr"

text \<open>
  The calls are made one after the other, each on the file system the one before left
  and each logged when it is made; the first that fails ends the run with its error.
  The steps are taken one after the other, each started on the file system the one
  before left.
\<close>

fun run_calls :: "env \<Rightarrow> AddonBuilder \<Rightarrow> event list \<Rightarrow> unit stmt" where
  "run_calls E self [] w = (Inr (), w)"
| "run_calls E self (ev # evs) w =
     (case call E self ev (fs w) of
        Inl e \<Rightarrow> (Inl e, w\<lparr>log := log w @ [ev]\<rparr>)
      | Inr root \<Rightarrow> run_calls E self evs (w\<lparr>log := log w @ [ev], fs := root\<rparr>))"

type_synonym step = "node \<Rightarrow> event list"

fun run_steps :: "env \<Rightarrow> AddonBuilder \<Rightarrow> step list \<Rightarrow> unit stmt" where
  "run_steps E self [] w = (Inr (), w)"
| "run_steps E self (st # sts) w =
     (case run_calls E self (st (fs w)) w of
        (Inl e, w') \<Rightarrow> (Inl e, w')
      | (Inr u, w') \<Rightarrow> run_steps E self sts w')"

definition always :: "event list \<Rightarrow> step" where
  "always evs root = evs"

definition provided :: "(node \<Rightarrow> bool) \<Rightarrow> event list \<Rightarrow> step" where
  "provided cond evs root = (if cond root then evs else [])"

subsection \<open>The steps of the preparation\<close>

text \<open>
  The preparation of the working area: the cleaning, which deletes the working area
  provided it exists and then purges the compiled files from the repository; then the
  working area is created and the tree exported into it.
\<close>

definition cleaning_steps :: "env \<Rightarrow> step list" where
  "cleaning_steps E =
     [always [Log_info ''Cleaning repository...''],
      provided (\<lambda>root. path_exists root (PATH_DIST E)) [Rmtree (PATH_DIST E)],
      always [Purge ''.'' [''*.pyc'', ''*.pyo'', ''__pycache__''] True]]"

definition preparation_steps :: "env \<Rightarrow> AddonBuilder \<Rightarrow> step list" where
  "preparation_steps E self =
     [always [Log_info (''Preparing source tree for '' @ cfg_display_name (self_config self)
                        @ '' '' @ self_version self @ '' ...'')]]
     @ cleaning_steps E
     @ [always [Mkdir (PATH_DIST E)],
        always [Git_archive (self_version self) (PATH_DIST E)]]"

subsection \<open>The steps of the augmentation\<close>

text \<open>
  The place a license file is copied to, \<open>{stem}.txt\<close> in the module's directory. The
  license copy of one candidate location: provided the location is a directory, one
  copy for each of its entries named \<open>LICENSE*\<close>, in the order of the listing.
\<close>

definition license_target :: "AddonBuilder \<Rightarrow> path \<Rightarrow> path" where
  "license_target self src = path_div (self_path_dist_module self) (stem (last src) @ ''.txt'')"




subsection \<open>Well-formed trees and the files of a subtree\<close>

text \<open>
  A name of a directory entry is plain: not empty, without a slash, and not \<open>.\<close> or
  \<open>..\<close>. In a well-formed tree every directory lists plain names, each once, as a file
  system does. A tree is readable when every file in it is.
\<close>

definition plain :: "string \<Rightarrow> bool" where
  "plain nm = (nm \<noteq> [] \<and> CHR ''/'' \<notin> set nm \<and> nm \<noteq> ''.'' \<and> nm \<noteq> ''..'')"

fun wf_node :: "node \<Rightarrow> bool"
  and wf_entries :: "(string \<times> node) list \<Rightarrow> bool"
where
  "wf_node (File r c) = True"
| "wf_node (Dir es) = (distinct (map fst es) \<and> wf_entries es)"
| "wf_entries [] = True"
| "wf_entries (e # es) = (plain (fst e) \<and> wf_node (snd e) \<and> wf_entries es)"

fun readable :: "node \<Rightarrow> bool"
  and readable_entries :: "(string \<times> node) list \<Rightarrow> bool"
where
  "readable (File r c) = can_read r"
| "readable (Dir es) = readable_entries es"
| "readable_entries [] = True"
| "readable_entries (e # es) = (readable (snd e) \<and> readable_entries es)"

text \<open>
  The files below a node, each with its path relative to the node, its permission and
  its content: the files of the directory itself, then those of its subdirectories.
\<close>

type_synonym found = "path \<times> perm \<times> content"

fun file_entries :: "(string \<times> node) list \<Rightarrow> found list" where
  "file_entries [] = []"
| "file_entries (e # es) =
     (case snd e of File r c \<Rightarrow> [([fst e], r, c)] | Dir sub \<Rightarrow> []) @ file_entries es"

fun rel_files :: "node \<Rightarrow> found list"
  and rel_files_dirs :: "(string \<times> node) list \<Rightarrow> found list"
where
  "rel_files (File r c) = []"
| "rel_files (Dir es) = file_entries es @ rel_files_dirs es"
| "rel_files_dirs [] = []"
| "rel_files_dirs (e # es) =
     map (\<lambda>f. (fst e # fst f, snd f)) (rel_files (snd e)) @ rel_files_dirs es"

text \<open>
  The archive entry of a file: its name is the relative path, the components joined by
  slashes.
\<close>

definition entry_of :: "found \<Rightarrow> string \<times> content" where
  "entry_of f = (str_join ''/'' (fst f), snd (snd f))"

text \<open>
  Of a list of files taken in order: those before the first unreadable one
  (\<open>written\<close>), those up to and with it (\<open>attempted\<close>), and how the pass over the list
  ends (\<open>outcome\<close>).
\<close>

definition is_readable :: "found \<Rightarrow> bool" where
  "is_readable f = can_read (fst (snd f))"

definition written :: "found list \<Rightarrow> found list" where
  "written fl = takeWhile is_readable fl"

definition attempted :: "found list \<Rightarrow> found list" where
  "attempted fl = take (Suc (length (written fl))) fl"

definition outcome :: "found list \<Rightarrow> error + unit" where
  "outcome fl = (if list_all is_readable fl then Inr () else Inl PermissionError)"

text \<open>
  What a pass of the archive loop over the files \<open>fl\<close>, found under the relative path \<open>q\<close>
  of the tree at \<open>base\<close>, makes of the open archive and the log: the entries of the files
  written are added, and one write is logged for every file attempted.
\<close>

definition entry_under :: "path \<Rightarrow> found \<Rightarrow> string \<times> content" where
  "entry_under q f = entry_of (q @ fst f, snd f)"

definition write_under :: "path \<Rightarrow> path \<Rightarrow> found \<Rightarrow> event" where
  "write_under base q f = Zip_write (path_str (base @ q @ fst f)) (str_join ''/'' (q @ fst f))"

definition pass_result :: "path \<Rightarrow> path \<Rightarrow> found list \<Rightarrow> zipstate \<Rightarrow> (error + unit) \<times> zipstate" where
  "pass_result base q fl s =
     (outcome fl,
      (fst s @ map (entry_under q) (written fl),
       (snd s)\<lparr>log := log (snd s) @ map (write_under base q) (attempted fl)\<rparr>))"

subsection \<open>The license files\<close>

text \<open>
  The license files of a file system: the entries named \<open>LICENSE*\<close> of those candidate
  locations that are directories, in the order of the candidates and of their listings.
\<close>

definition license_sources :: "node \<Rightarrow> env \<Rightarrow> path list" where
  "license_sources root E =
     concat (map (\<lambda>p. if path_is_dir root p then glob_prefix root p ''LICENSE'' else [])
               (paths_licenses E))"

text \<open>
  The content of the file at a path, if there is a file; whether a path holds a file
  that can be read; and whether it can be opened for writing as far as the path itself
  goes: it holds nothing or a file that can be written.
\<close>

definition content_at :: "node \<Rightarrow> path \<Rightarrow> content option" where
  "content_at root p = (case fs_lookup root p of Some (File r c) \<Rightarrow> Some c | _ \<Rightarrow> None)"

definition readable_file :: "node \<Rightarrow> path \<Rightarrow> bool" where
  "readable_file root p = (case fs_lookup root p of Some (File r c) \<Rightarrow> can_read r | _ \<Rightarrow> False)"

definition free_or_writable :: "node \<Rightarrow> path \<Rightarrow> bool" where
  "free_or_writable root p =
     (case fs_lookup root p of
        None \<Rightarrow> True
      | Some (File r c) \<Rightarrow> can_write r
      | Some (Dir es) \<Rightarrow> False)"

subsection \<open>A sample repository\<close>

text \<open>
  A repository \<open>/repo\<close> with the working area \<open>/repo/build/dist\<close>, whose export holds a
  license, a changelog and the module \<open>foo\<close> with the files \<open>a.py\<close> and \<open>sub/b.py\<close>. Its
  collaborators are stand-ins that leave a mark: the archiver writes the export, the
  purge removes the compiled file \<open>/repo/foo.pyc\<close>, the recursive copy puts the source
  tree at the target, the manifest writer writes \<open>manifest.json\<close> with the version and
  the distribution type, the UI builder writes one file of forms for a target, and the
  shim is a file in the directory \<open>designer\<close> of the UI definitions. The version parser
  finds no version for the checked-out commit (\<open>dev\<close>), describes the last commit as
  \<open>1.2.3\<close>, and returns any other version as it is given; the working tree is clean.
\<close>

definition sample_dist :: node where
  "sample_dist =
     Dir [(''LICENSE'', File rw (Bytes ''license'')),
          (''CHANGELOG.md'', File rw (Bytes ''changes'')),
          (''src'', Dir [(''foo'', Dir [(''a.py'', File rw (Bytes ''a'')),
                                        (''sub'', Dir [(''b.py'', File rw (Bytes ''b''))])])])]"

definition sample_config :: Config where
  "sample_config = \<lparr>cfg_display_name = ''Foo'', cfg_module_name = ''foo'', cfg_repo_name = ''foo''\<rparr>"

definition sample_env :: env where
  "sample_env =
     \<lparr>PATH_ROOT = [''repo''],
      PATH_DIST = [''repo'', ''build'', ''dist''],
      git_parse_version =
        (\<lambda>v root. case v of None \<Rightarrow> ''dev''
                    | Some s \<Rightarrow> if s = ''current'' then ''1.2.3'' else s),
      call_shell = (\<lambda>cmd root. []),
      git_archive = (\<lambda>v p root. Inr (fs_store p sample_dist root)),
      purge = (\<lambda>d ps rec root. Inr (fs_remove [''repo'', ''foo.pyc''] root)),
      copy_recursively =
        (\<lambda>src dst root. case fs_lookup root src of
                            None \<Rightarrow> Inl FileNotFoundError
                          | Some n \<Rightarrow> Inr (fs_store dst n root)),
      generate_and_write_manifest =
        (\<lambda>c v d t root. write_file (t @ [''manifest.json'']) (Bytes (v @ '' '' @ d)) root),
      load_config = sample_config,
      ui_build = (\<lambda>p q py root. write_file (p @ [''forms_'' @ name q]) (Bytes ''forms'') root),
      ui_gui_path = (\<lambda>p. p @ [''designer'']),
      ui_create_qt_shim =
        (\<lambda>p root. write_file (p @ [''designer'', ''shim.py'']) (Bytes ''shim'') root)\<rparr>"

definition sample_builder :: AddonBuilder where
  "sample_builder =
     \<lparr>self_version = ''1.2.3'',
      self_callback_archive = None,
      self_config = sample_config,
      self_path_dist_module = [''repo'', ''build'', ''dist'', ''src'', ''foo'']\<rparr>"

text \<open>The sample before a build, and after the export.\<close>

definition sample_world :: world where
  "sample_world = \<lparr>fs = Dir [(''repo'', Dir [(''build'', Dir [])])], log = []\<rparr>"

definition sample_exported :: world where
  "sample_exported =
     \<lparr>fs = Dir [(''repo'', Dir [(''build'', Dir [(''dist'', sample_dist)])])], log = []\<rparr>"

text \<open>
  The sample after the export with an unreadable file \<open>sub/b.py\<close>; with the file \<open>a.py\<close>
  alone; and with the package of an earlier build at the output path.
\<close>

definition sample_locked :: world where
  "sample_locked =
     \<lparr>fs = Dir [(''repo'', Dir [(''build'', Dir [(''dist'',
             Dir [(''src'', Dir [(''foo'',
               Dir [(''a.py'', File rw (Bytes ''a'')),
                    (''sub'', Dir [(''b.py'', File (Perm False True) (Bytes ''b''))])])])])])])],
      log = []\<rparr>"

definition sample_small :: world where
  "sample_small =
     \<lparr>fs = Dir [(''repo'', Dir [(''build'', Dir [(''dist'',
             Dir [(''src'', Dir [(''foo'',
               Dir [(''a.py'', File rw (Bytes ''a''))])])])])])],
      log = []\<rparr>"

definition sample_rebuilt :: world where
  "sample_rebuilt =
     \<lparr>fs = Dir [(''repo'', Dir [(''build'',
             Dir [(''dist'', sample_dist),
                  (''foo-1.2.3-qt6.ankiaddon'',
                   File rw (Zip [(''old.py'', Bytes ''old'')]))])])],
      log = []\<rparr>"

text \<open>
  The sample with the working area of an earlier build and a compiled file in the
  repository.
\<close>

definition sample_stale :: world where
  "sample_stale =
     \<lparr>fs = Dir [(''repo'', Dir [(''foo.pyc'', File rw (Bytes ''compiled'')),
                                  (''build'', Dir [(''dist'',
                                     Dir [(''old.py'', File rw (Bytes ''old''))])])])],
      log = []\<rparr>"




text \<open>
  The sample with an export that holds, beside the license, a directory \<open>LICENSES\<close>
  of license texts, listed first; with an export whose module holds a read-only
  \<open>LICENSE.txt\<close> already; and with an export that holds two licenses of the same stem,
  the second one read-only, and a license among the resources, of which the module holds
  an older copy.
\<close>

definition sample_reuse :: world where
  "sample_reuse =
     \<lparr>fs = Dir [(''repo'', Dir [(''build'', Dir [(''dist'',
             Dir [(''LICENSES'', Dir [(''MIT.txt'', File rw (Bytes ''mit''))]),
                  (''LICENSE'', File rw (Bytes ''license'')),
                  (''src'', Dir [(''foo'', Dir [])])])])])],
      log = []\<rparr>"

definition sample_readonly :: world where
  "sample_readonly =
     \<lparr>fs = Dir [(''repo'', Dir [(''build'', Dir [(''dist'',
             Dir [(''LICENSE'', File rw (Bytes ''license'')),
                  (''src'', Dir [(''foo'',
                     Dir [(''LICENSE.txt'', File (Perm True False) (Bytes ''old''))])])])])])],
      log = []\<rparr>"

definition sample_licenses :: world where
  "sample_licenses =
     \<lparr>fs = Dir [(''repo'', Dir [(''build'', Dir [(''dist'',
             Dir [(''LICENSE'', File rw (Bytes ''license'')),
                  (''LICENSE.md'', File (Perm True False) (Bytes ''markdown'')),
                  (''resources'', Dir [(''LICENSE-icons.txt'', File rw (Bytes ''icons''))]),
                  (''src'', Dir [(''foo'',
                     Dir [(''LICENSE-icons.txt'', File rw (Bytes ''stale''))])])])])])],
      log = []\<rparr>"
section \<open>Lemmas\<close>

subsection \<open>Strings\<close>

lemma foldl_plus_shift:
  "foldl (\<lambda>acc s. acc @ ''+'' @ s) (a @ b) ts = a @ foldl (\<lambda>acc s. acc @ ''+'' @ s) b ts"
  by (induction ts arbitrary: b) simp_all

lemma str_join_joined_targets: "str_join ''+'' ts = joined_targets ts"
proof (induction ts)
  case Nil
  show ?case by simp
next
  case (Cons x xs)
  show ?case
  proof (cases xs)
    case Nil
    then show ?thesis by simp
  next
    case (Cons y ys)
    have "joined_targets (x # y # ys) = foldl (\<lambda>acc s. acc @ ''+'' @ s) ((x @ ''+'') @ y) ys"
      by simp
    also have "\<dots> = (x @ ''+'') @ foldl (\<lambda>acc s. acc @ ''+'' @ s) y ys"
      by (rule foldl_plus_shift)
    also have "\<dots> = x @ ''+'' @ joined_targets (y # ys)"
      by simp
    finally show ?thesis
      using Cons.IH Cons by simp
  qed
qed

subsection \<open>Statements and their traces\<close>









subsection \<open>The order of the augmentation\<close>

lemma steps_append [simp]: "steps (a @ b) = steps a @ steps b"
  by (simp add: steps_def)

lemma steps_Nil [simp]: "steps [] = []"
  by (simp add: steps_def)

lemma steps_Cons [simp]: "steps (ev # tr) = (if is_step ev then ev # steps tr else steps tr)"
  by (simp add: steps_def)

lemma phases_append [simp]: "phases (a @ b) = phases a @ phases b"
  by (simp add: phases_def)

lemma phases_Nil [simp]: "phases [] = []"
  by (simp add: phases_def)

lemma phases_Cons [simp]:
  "phases (ev # tr) = (if is_step ev then phase ev # phases tr else phases tr)"
  by (simp add: phases_def)





lemma from_phase_Nil [simp]: "from_phase k []"
  by (simp add: from_phase_def)

lemma at_phase_Nil [simp]: "at_phase k []"
  by (simp add: at_phase_def)

lemma at_phase_append [simp]: "at_phase k (a @ b) = (at_phase k a \<and> at_phase k b)"
  by (auto simp add: at_phase_def)













subsection \<open>Resolving a path\<close>

lemma resolve_Inr: "resolve root p = Inr n \<longleftrightarrow> fs_lookup root p = Some n"
  by (induction root p rule: resolve.induct) (auto split: option.splits)

lemma resolve_lookup: "fs_lookup root p = Some n \<Longrightarrow> resolve root p = Inr n"
  by (simp add: resolve_Inr)

subsection \<open>Cleaning and exporting\<close>

lemma map_of_snoc: "map_of es x = None \<Longrightarrow> map_of (es @ [(x, v)]) x = Some v"
  by (simp add: map_add_def)

lemma fs_lookup_remove:
  "p \<noteq> [] \<Longrightarrow> fs_lookup root p \<noteq> None \<Longrightarrow> fs_lookup (fs_remove p root) p = None"
proof (induction p arbitrary: root)
  case Nil
  then show ?case by simp
next
  case (Cons x xs)
  show ?case
  proof (cases root)
    case (File r c)
    with Cons.prems show ?thesis by simp
  next
    case (Dir es)
    show ?thesis
    proof (cases "xs = []")
      case True
      with Dir show ?thesis by (simp add: delete_conv')
    next
      case False
      with Cons.prems Dir obtain ch where ch: "map_of es x = Some ch" "fs_lookup ch xs \<noteq> None"
        by (auto split: option.splits)
      with Cons.IH [OF False ch(2)] False Dir show ?thesis
        by (simp add: update_conv')
    qed
  qed
qed

lemma rmtree_removes: "rmtree p root = Inr root1 \<Longrightarrow> \<not> path_exists root1 p"
  using fs_lookup_remove [of p root]
  by (auto simp add: rmtree_def path_exists_def resolve_Inr
        split: sum.splits node.splits if_splits)

lemma mkdir_parents_makes:
  "mkdir_parents p root = Inr root3 \<Longrightarrow> fs_lookup root3 p = Some (Dir [])"
proof (induction p arbitrary: root root3)
  case Nil
  then show ?case by simp
next
  case (Cons x xs)
  show ?case
  proof (cases root)
    case (File r c)
    with Cons.prems show ?thesis by simp
  next
    case (Dir es)
    show ?thesis
    proof (cases "map_of es x")
      case None
      show ?thesis
      proof (cases "xs = []")
        case True
        with None Dir Cons.prems have "root3 = Dir (es @ [(x, Dir [])])" by simp
        with True map_of_snoc [OF None] show ?thesis by simp
      next
        case False
        with None Dir Cons.prems obtain ch where
          ch: "mkdir_parents xs (Dir []) = Inr ch" "root3 = Dir (es @ [(x, ch)])"
          by (auto split: sum.splits)
        from Cons.IH [OF ch(1)] ch(2) map_of_snoc [OF None] show ?thesis by simp
      qed
    next
      case (Some ch)
      show ?thesis
      proof (cases "xs = []")
        case True
        with Some Dir Cons.prems show ?thesis by simp
      next
        case False
        with Some Dir Cons.prems obtain ch' where
          ch: "mkdir_parents xs ch = Inr ch'" "root3 = Dir (AList.update x ch' es)"
          by (auto split: sum.splits)
        from Cons.IH [OF ch(1)] ch(2) show ?thesis by (simp add: update_conv')
      qed
    qed
  qed
qed

subsection \<open>Path strings\<close>

lemma split_sep_no_sep: "c \<notin> set x \<Longrightarrow> split_sep c x = [x]"
  by (induction x) auto

lemma split_sep_append:
  "c \<notin> set x \<Longrightarrow> split_sep c (x @ c # rest) = x # split_sep c rest"
  by (induction x) auto

lemma slash_cons: "(@) ''/'' = (#) CHR ''/''"
  by (rule ext) simp

lemma split_sep_concat:
  "\<forall>seg \<in> set p. c \<notin> set seg \<Longrightarrow> p \<noteq> [] \<Longrightarrow>
   split_sep c (concat (map ((#) c) p)) = [] # p"
proof (induction p)
  case Nil
  then show ?case by simp
next
  case (Cons x xs)
  show ?case
  proof (cases xs)
    case Nil
    with Cons.prems show ?thesis by (simp add: split_sep_no_sep)
  next
    case (Cons y ys)
    with Cons.IH Cons.prems have "split_sep c (concat (map ((#) c) xs)) = [] # xs"
      by simp
    then have "split_sep c (x @ concat (map ((#) c) xs)) = x # xs"
      using Cons.prems Cons by (simp add: split_sep_append)
    then show ?thesis by simp
  qed
qed

lemma parts_path_str: "list_all plain p \<Longrightarrow> parts (path_str p) = p"
proof (cases "p = []")
  case True
  then show ?thesis by (simp add: parts_def path_str_def)
next
  case False
  assume pl: "list_all plain p"
  then have "\<forall>seg \<in> set p. CHR ''/'' \<notin> set seg"
    by (simp add: list_all_iff plain_def)
  from split_sep_concat [OF this False]
  have "split_sep CHR ''/'' (path_str p) = [] # p"
    using False by (simp add: path_str_def slash_cons)
  moreover have "filter (\<lambda>seg. seg \<noteq> [] \<and> seg \<noteq> ''.'') p = p"
    using pl by (auto simp add: list_all_iff plain_def intro!: filter_True)
  ultimately show ?thesis by (simp add: parts_def)
qed

lemma path_str_append:
  "p \<noteq> [] \<Longrightarrow> path_str (p @ r) = path_str p @ concat (map ((#) CHR ''/'') r)"
  by (simp add: path_str_def slash_cons)

lemma path_str_last:
  "p \<noteq> [] \<Longrightarrow> last p \<noteq> [] \<Longrightarrow> path_str p \<noteq> [] \<and> last (path_str p) = last (last p)"
proof (induction p rule: rev_induct)
  case Nil
  then show ?case by simp
next
  case (snoc x xs)
  then show ?case by (simp add: path_str_def)
qed

lemma os_path_join_path_str:
  assumes "p \<noteq> []" "list_all plain p" "plain x"
  shows "os_path_join (path_str p) x = path_str (p @ [x])"
proof -
  from assms have lp: "plain (last p)" by (simp add: list_all_iff)
  then have "last p \<noteq> []" "CHR ''/'' \<notin> set (last p)" by (simp_all add: plain_def)
  with path_str_last [OF assms(1)] have ne: "path_str p \<noteq> []"
    and l: "last (path_str p) \<noteq> CHR ''/''"
    by (auto dest: last_in_set)
  from assms(3) have "take 1 x \<noteq> ''/''"
    by (cases x) (auto simp add: plain_def)
  with ne l show ?thesis
    by (simp add: os_path_join_def path_str_append [OF assms(1)])
qed

lemma drop_one_concat:
  "r \<noteq> [] \<Longrightarrow> drop 1 (concat (map ((#) CHR ''/'') r)) = str_join ''/'' r"
proof (induction r)
  case Nil
  then show ?case by simp
next
  case (Cons x xs)
  then show ?case by (cases xs) simp_all
qed

lemma drop_rootlen:
  assumes "base \<noteq> []" "r \<noteq> []"
  shows "drop (length (path_str base) + 1) (path_str (base @ r)) = str_join ''/'' r"
  using drop_one_concat [OF assms(2)]
  by (simp add: path_str_append [OF assms(1)])

subsection \<open>Lookup, store and remove\<close>

lemma fs_lookup_append:
  "fs_lookup root (p @ r) = (case fs_lookup root p of None \<Rightarrow> None | Some n \<Rightarrow> fs_lookup n r)"
proof (induction p arbitrary: root)
  case Nil
  show ?case by simp
next
  case (Cons x xs)
  show ?case
  proof (cases root)
    case (File b c)
    then show ?thesis by simp
  next
    case (Dir es)
    with Cons.IH show ?thesis by (simp split: option.splits)
  qed
qed

lemma fs_lookup_snoc_Dir:
  "fs_lookup root d = Some (Dir es) \<Longrightarrow> fs_lookup root (d @ [x]) = map_of es x"
  by (simp add: fs_lookup_append split: option.splits)

lemma fs_lookup_Cons_Some:
  "fs_lookup root (x # xs) = Some n \<Longrightarrow>
   \<exists>es ch. root = Dir es \<and> map_of es x = Some ch \<and> fs_lookup ch xs = Some n"
  by (cases root) (auto split: option.splits)

lemma fs_store_parent:
  "fs_lookup root d = Some (Dir es) \<Longrightarrow>
   fs_lookup (fs_store (d @ [x]) v root) d = Some (Dir (AList.update x v es))"
proof (induction d arbitrary: root)
  case Nil
  then show ?case by simp
next
  case (Cons y ys)
  from fs_lookup_Cons_Some [OF Cons.prems] obtain es0 ch where
    r: "root = Dir es0" "map_of es0 y = Some ch" "fs_lookup ch ys = Some (Dir es)"
    by blast
  from Cons.IH [OF r(3)] r show ?case by (simp add: update_conv')
qed

lemma fs_remove_parent:
  "fs_lookup root d = Some (Dir es) \<Longrightarrow>
   fs_lookup (fs_remove (d @ [x]) root) d = Some (Dir (AList.delete x es))"
proof (induction d arbitrary: root)
  case Nil
  then show ?case by simp
next
  case (Cons y ys)
  from fs_lookup_Cons_Some [OF Cons.prems] obtain es0 ch where
    r: "root = Dir es0" "map_of es0 y = Some ch" "fs_lookup ch ys = Some (Dir es)"
    by blast
  from Cons.IH [OF r(3)] r show ?case by (simp add: update_conv')
qed

lemma fs_store_frame:
  "\<not> prefix p q \<Longrightarrow> \<not> prefix q p \<Longrightarrow> fs_lookup (fs_store p v root) q = fs_lookup root q"
proof (induction p arbitrary: q root)
  case Nil
  then show ?case by simp
next
  case (Cons x xs)
  show ?case
  proof (cases root)
    case (File b c)
    then show ?thesis by simp
  next
    case (Dir es)
    from Cons.prems obtain y ys where q: "q = y # ys" by (cases q) auto
    show ?thesis
    proof (cases "y = x")
      case False
      with Dir q show ?thesis by (simp add: update_conv' split: option.splits)
    next
      case True
      with Cons.prems q have d: "\<not> prefix xs ys" "\<not> prefix ys xs" by simp_all
      then have "xs \<noteq> []" by auto
      with Cons.IH [OF d] Dir q True show ?thesis
        by (simp add: update_conv' split: option.splits)
    qed
  qed
qed

lemma fs_remove_frame:
  "\<not> prefix p q \<Longrightarrow> \<not> prefix q p \<Longrightarrow> fs_lookup (fs_remove p root) q = fs_lookup root q"
proof (induction p arbitrary: q root)
  case Nil
  then show ?case by simp
next
  case (Cons x xs)
  show ?case
  proof (cases root)
    case (File b c)
    then show ?thesis by simp
  next
    case (Dir es)
    from Cons.prems obtain y ys where q: "q = y # ys" by (cases q) auto
    show ?thesis
    proof (cases "y = x")
      case False
      with Dir q show ?thesis by (simp add: update_conv' delete_conv' split: option.splits)
    next
      case True
      with Cons.prems q have d: "\<not> prefix xs ys" "\<not> prefix ys xs" by simp_all
      then have "xs \<noteq> []" by auto
      with Cons.IH [OF d] Dir q True show ?thesis
        by (simp add: update_conv' split: option.splits)
    qed
  qed
qed

lemma path_is_dir_butlast:
  assumes "p \<noteq> []" "path_is_dir root (butlast p)"
  obtains es where "fs_lookup root (butlast p) = Some (Dir es)" "p = butlast p @ [last p]"
  using assms by (auto simp add: path_is_dir_def split: option.splits node.splits)

lemma fs_store_lookup_same:
  assumes "p \<noteq> []" "path_is_dir root (butlast p)"
  shows "fs_lookup (fs_store p v root) p = Some v"
    and "path_is_dir (fs_store p v root) (butlast p)"
proof -
  from assms obtain es where
    es: "fs_lookup root (butlast p) = Some (Dir es)" and p: "p = butlast p @ [last p]"
    by (rule path_is_dir_butlast)
  from fs_store_parent [OF es, of "last p" v] p
  have l: "fs_lookup (fs_store p v root) (butlast p) = Some (Dir (AList.update (last p) v es))"
    by simp
  then show "path_is_dir (fs_store p v root) (butlast p)" by (simp add: path_is_dir_def)
  from fs_lookup_snoc_Dir [OF l, of "last p"] p
  show "fs_lookup (fs_store p v root) p = Some v" by (simp add: update_conv')
qed

lemma fs_remove_lookup_same:
  assumes "p \<noteq> []" "path_is_dir root (butlast p)"
  shows "fs_lookup (fs_remove p root) p = None"
    and "path_is_dir (fs_remove p root) (butlast p)"
proof -
  from assms obtain es where
    es: "fs_lookup root (butlast p) = Some (Dir es)" and p: "p = butlast p @ [last p]"
    by (rule path_is_dir_butlast)
  from fs_remove_parent [OF es, of "last p"] p
  have l: "fs_lookup (fs_remove p root) (butlast p) = Some (Dir (AList.delete (last p) es))"
    by simp
  then show "path_is_dir (fs_remove p root) (butlast p)" by (simp add: path_is_dir_def)
  from fs_lookup_snoc_Dir [OF l, of "last p"] p
  show "fs_lookup (fs_remove p root) p = None" by (simp add: delete_conv')
qed

lemma write_file_new:
  assumes "p \<noteq> []" "path_is_dir root (butlast p)" "fs_lookup root p = None"
  shows "write_file p c root = Inr (fs_store p (File rw c) root)"
proof -
  from assms(1,2) obtain es where
    es: "fs_lookup root (butlast p) = Some (Dir es)" and p: "p = butlast p @ [last p]"
    by (rule path_is_dir_butlast)
  from fs_lookup_snoc_Dir [OF es, of "last p"] p assms(3) have "map_of es (last p) = None"
    by simp
  with assms(1) es show ?thesis by (simp add: write_file_def resolve_lookup)
qed

lemma write_file_over:
  assumes "p \<noteq> []" "fs_lookup root p = Some (File r old)" "can_write r"
  shows "write_file p c root = Inr (fs_store p (File r c) root)"
proof -
  from assms(1) have p: "p = butlast p @ [last p]" by simp
  from assms(2) p have "fs_lookup root (butlast p @ [last p]) = Some (File r old)" by simp
  then obtain n where n: "fs_lookup root (butlast p) = Some n"
      and l: "fs_lookup n [last p] = Some (File r old)"
    by (auto simp add: fs_lookup_append split: option.splits)
  from l obtain es where "n = Dir es" "map_of es (last p) = Some (File r old)"
    by (cases n) (auto split: option.splits)
  with n assms(1,3) show ?thesis by (simp add: write_file_def resolve_lookup)
qed

subsection \<open>The archive loop\<close>

lemma written_Nil [simp]: "written [] = []" and attempted_Nil [simp]: "attempted [] = []"
  and outcome_Nil [simp]: "outcome [] = Inr ()"
  by (simp_all add: written_def attempted_def outcome_def)

lemma written_all: "list_all is_readable a \<Longrightarrow> written a = a"
  by (simp add: written_def list_all_iff)

lemma attempted_all: "list_all is_readable a \<Longrightarrow> attempted a = a"
  by (simp add: attempted_def written_all)

lemma outcome_all: "list_all is_readable a \<Longrightarrow> outcome a = Inr ()"
  by (simp add: outcome_def)

lemma written_append:
  "written (a @ b) = (if list_all is_readable a then a @ written b else written a)"
  unfolding written_def by (induction a) auto

lemma length_written_less: "\<not> list_all is_readable a \<Longrightarrow> length (written a) < length a"
  unfolding written_def by (induction a) auto

lemma attempted_append:
  "attempted (a @ b) = (if list_all is_readable a then a @ attempted b else attempted a)"
  using length_written_less [of a]
  by (auto simp add: attempted_def written_append)

lemma outcome_append:
  "outcome (a @ b) = (if list_all is_readable a then outcome b else Inl PermissionError)"
  by (simp add: outcome_def)

lemma pass_result_Nil [simp]: "pass_result base q [] s = (Inr (), s)"
  by (simp add: pass_result_def)

lemma pass_result_all:
  "list_all is_readable a \<Longrightarrow>
   pass_result base q a s
     = (Inr (), (fst s @ map (entry_under q) a,
                 (snd s)\<lparr>log := log (snd s) @ map (write_under base q) a\<rparr>))"
  by (simp add: pass_result_def written_all attempted_all outcome_all)

lemma pass_result_seq:
  assumes "m s = pass_result base q a s"
    and "list_all is_readable a \<Longrightarrow>
         k (snd (pass_result base q a s)) = pass_result base q b (snd (pass_result base q a s))"
  shows "bind m (\<lambda>_. k) s = pass_result base q (a @ b) s"
proof (cases "list_all is_readable a")
  case True
  with assms(2) have "k (snd (pass_result base q a s))
      = pass_result base q b (snd (pass_result base q a s))" by simp
  with True assms(1) show ?thesis
    by (simp add: bind_def pass_result_all)
       (simp add: pass_result_def written_append attempted_append outcome_append)
next
  case False
  with assms(1) show ?thesis
    by (simp add: bind_def pass_result_def written_append attempted_append outcome_append
        outcome_def)
qed

lemma pass_result_map:
  "pass_result base q (map (\<lambda>f. (x # fst f, snd f)) fl) s = pass_result base (q @ [x]) fl s"
proof -
  have r: "is_readable \<circ> (\<lambda>f. (x # fst f, snd f)) = is_readable"
    by (rule ext) (simp add: is_readable_def)
  have w: "written (map (\<lambda>f. (x # fst f, snd f)) fl) = map (\<lambda>f. (x # fst f, snd f)) (written fl)"
    by (simp add: written_def takeWhile_map r)
  have a: "attempted (map (\<lambda>f. (x # fst f, snd f)) fl)
      = map (\<lambda>f. (x # fst f, snd f)) (attempted fl)"
    by (simp add: attempted_def w take_map)
  have o: "outcome (map (\<lambda>f. (x # fst f, snd f)) fl) = outcome fl"
    by (simp add: outcome_def list_all_iff is_readable_def)
  show ?thesis
    by (simp add: pass_result_def w a o entry_under_def write_under_def comp_def)
qed

lemma fs_pass_result [simp]: "fs (snd (snd (pass_result base q fl s))) = fs (snd s)"
  by (simp add: pass_result_def)

lemma zip_write_file:
  assumes "list_all plain (base @ q @ [x])" "fs_lookup (fs (snd s)) (base @ q @ [x]) = Some (File r c)"
  shows "zip_write (path_str (base @ q @ [x])) (str_join ''/'' (q @ [x])) s
     = pass_result base q [([x], r, c)] s"
  using assms
  by (cases s)
     (simp add: zip_write_def parts_path_str resolve_lookup pass_result_def written_def
       attempted_def outcome_def is_readable_def entry_under_def write_under_def entry_of_def)

lemma write_files_entries:
  assumes "base \<noteq> []" "list_all plain base" "list_all plain q"
    and "\<forall>e \<in> set es. fs_lookup (fs (snd s)) (base @ q @ [fst e]) = Some (snd e)"
    and "wf_entries es"
  shows "write_files (length (path_str base) + 1) (path_str (base @ q)) (filenames es) s
     = pass_result base q (file_entries es) s"
  using assms(4,5)
proof (induction es arbitrary: s)
  case Nil
  show ?case by (simp add: filenames_def return_def)
next
  case (Cons e es)
  from Cons.prems have
    look: "fs_lookup (fs (snd s)) (base @ q @ [fst e]) = Some (snd e)" and
    rest: "\<forall>e \<in> set es. fs_lookup (fs (snd s)) (base @ q @ [fst e]) = Some (snd e)" and
    pl: "plain (fst e)" and wf: "wf_entries es"
    by simp_all
  show ?case
  proof (cases "snd e")
    case (Dir sub)
    then have "filenames (e # es) = filenames es" "file_entries (e # es) = file_entries es"
      by (simp_all add: filenames_def)
    with Cons.IH [OF rest wf] show ?thesis by simp
  next
    case (File r c)
    let ?p = "base @ q @ [fst e]"
    let ?arc = "str_join ''/'' (q @ [fst e])"
    have fn: "filenames (e # es) = fst e # filenames es"
      and fe: "file_entries (e # es) = [([fst e], r, c)] @ file_entries es"
      using File by (simp_all add: filenames_def)
    have pj: "os_path_join (path_str (base @ q)) (fst e) = path_str ?p"
      using os_path_join_path_str [of "base @ q" "fst e"] assms(1-3) pl by simp
    have dr: "drop (length (path_str base) + 1) (path_str ?p) = ?arc"
      using drop_rootlen [OF assms(1), of "q @ [fst e]"] by simp
    have plp: "list_all plain ?p" using assms(2,3) pl by simp
    have zw: "zip_write (path_str ?p) ?arc s = pass_result base q [([fst e], r, c)] s"
      using zip_write_file [OF plp] look File by simp
    have k: "write_files (length (path_str base) + 1) (path_str (base @ q)) (filenames es)
          (snd (pass_result base q [([fst e], r, c)] s))
        = pass_result base q (file_entries es) (snd (pass_result base q [([fst e], r, c)] s))"
      by (rule Cons.IH) (simp_all add: rest wf)
    show ?thesis
      unfolding fn fe write_files.simps Let_def pj dr
      using zw k
      by (rule pass_result_seq [where m = "zip_write (path_str ?p) ?arc"
            and k = "write_files (length (path_str base) + 1) (path_str (base @ q)) (filenames es)"])
  qed
qed

lemma write_walk_append:
  "write_walk rl (a @ b) s = bind (write_walk rl a) (\<lambda>_. write_walk rl b) s"
proof (induction a arbitrary: s)
  case Nil
  show ?case by (simp add: bind_def return_def)
next
  case (Cons t ts)
  show ?case
    by (cases "write_files rl (fst t) (snd (snd t)) s")
       (auto simp add: bind_def Cons split: sum.splits)
qed

lemma walk_entries:
  assumes "base \<noteq> []" "list_all plain base"
  shows "\<forall>q s. tp = path_str (base @ q) \<longrightarrow> list_all plain q \<longrightarrow>
           fs_lookup (fs (snd s)) (base @ q) = Some n \<longrightarrow> wf_node n \<longrightarrow>
           write_walk (length (path_str base) + 1) (os_walk tp n) s
             = pass_result base q (rel_files n) s"
    and "\<forall>q s. tp' = path_str (base @ q) \<longrightarrow> list_all plain q \<longrightarrow>
           (\<forall>e \<in> set es. fs_lookup (fs (snd s)) (base @ q @ [fst e]) = Some (snd e)) \<longrightarrow>
           wf_entries es \<longrightarrow>
           write_walk (length (path_str base) + 1) (os_walk_dirs tp' es) s
             = pass_result base q (rel_files_dirs es) s"
proof (induction tp n and tp' es rule: os_walk_os_walk_dirs.induct)
  case (1 tp r c)
  show ?case by (simp add: return_def)
next
  case (2 tp es)
  show ?case
  proof (intro allI impI)
    fix q and s :: zipstate
    assume tp: "tp = path_str (base @ q)" and q: "list_all plain q"
      and look: "fs_lookup (fs (snd s)) (base @ q) = Some (Dir es)"
      and wf: "wf_node (Dir es)"
    have each: "\<forall>e \<in> set es. fs_lookup (fs (snd s)) (base @ q @ [fst e]) = Some (snd e)"
    proof
      fix e assume "e \<in> set es"
      with wf have "map_of es (fst e) = Some (snd e)" by simp
      with fs_lookup_snoc_Dir [OF look, of "fst e"]
      show "fs_lookup (fs (snd s)) (base @ q @ [fst e]) = Some (snd e)" by simp
    qed
    have wfs: "write_files (length (path_str base) + 1) tp (filenames es) s
        = pass_result base q (file_entries es) s"
      unfolding tp using write_files_entries [OF assms q each] wf by simp
    have k: "write_walk (length (path_str base) + 1) (os_walk_dirs tp es)
          (snd (pass_result base q (file_entries es) s))
        = pass_result base q (rel_files_dirs es) (snd (pass_result base q (file_entries es) s))"
      using tp q each wf by (intro 2 [rule_format]) simp_all
    show "write_walk (length (path_str base) + 1) (os_walk tp (Dir es)) s
        = pass_result base q (rel_files (Dir es)) s"
      unfolding os_walk.simps write_walk.simps fst_conv snd_conv rel_files.simps
      using wfs k
      by (rule pass_result_seq [where m = "write_files (length (path_str base) + 1) tp (filenames es)"
            and k = "write_walk (length (path_str base) + 1) (os_walk_dirs tp es)"])
  qed
next
  case (3 tp)
  show ?case by (simp add: return_def)
next
  case (4 tp e es)
  show ?case
  proof (intro allI impI)
    fix q and s :: zipstate
    assume tp: "tp = path_str (base @ q)" and q: "list_all plain q"
      and each: "\<forall>e' \<in> set (e # es). fs_lookup (fs (snd s)) (base @ q @ [fst e']) = Some (snd e')"
      and wf: "wf_entries (e # es)"
    let ?sub = "map (\<lambda>f. (fst e # fst f, snd f)) (rel_files (snd e))"
    have first: "write_walk (length (path_str base) + 1)
        (if is_dir_node (snd e) then os_walk (os_path_join tp (fst e)) (snd e) else []) s
        = pass_result base q ?sub s"
    proof (cases "is_dir_node (snd e)")
      case False
      then obtain r c where "snd e = File r c" by (cases "snd e") auto
      then show ?thesis by (simp add: return_def)
    next
      case True
      have pj: "os_path_join tp (fst e) = path_str (base @ (q @ [fst e]))"
        unfolding tp using os_path_join_path_str [of "base @ q" "fst e"] assms q wf by simp
      have q': "list_all plain (q @ [fst e])" using q wf by simp
      have look: "fs_lookup (fs (snd s)) (base @ (q @ [fst e])) = Some (snd e)"
        using each by simp
      have "write_walk (length (path_str base) + 1)
          (os_walk (os_path_join tp (fst e)) (snd e)) s
        = pass_result base (q @ [fst e]) (rel_files (snd e)) s"
        using pj q' look wf by (intro 4(1) [OF True, rule_format]) simp_all
      with True show ?thesis by (simp add: pass_result_map)
    qed
    have k: "write_walk (length (path_str base) + 1) (os_walk_dirs tp es)
          (snd (pass_result base q ?sub s))
        = pass_result base q (rel_files_dirs es) (snd (pass_result base q ?sub s))"
      using tp q each wf by (intro 4(2) [rule_format]) simp_all
    show "write_walk (length (path_str base) + 1) (os_walk_dirs tp (e # es)) s
        = pass_result base q (rel_files_dirs (e # es)) s"
      unfolding os_walk_dirs.simps write_walk_append rel_files_dirs.simps
      using first k
      by (rule pass_result_seq [where m = "write_walk (length (path_str base) + 1)
              (if is_dir_node (snd e) then os_walk (os_path_join tp (fst e)) (snd e) else [])"
            and k = "write_walk (length (path_str base) + 1) (os_walk_dirs tp es)"])
  qed
qed

lemma entry_under_Nil: "entry_under [] = entry_of"
  by (rule ext) (simp add: entry_under_def)

lemma zip_tree_run:
  assumes out: "out_path \<noteq> []" "path_is_dir (fs w) (butlast out_path)"
      "fs_lookup (fs w) out_path = None"
    and tz: "to_zip \<noteq> []" "list_all plain to_zip"
      "\<not> prefix out_path to_zip" "\<not> prefix to_zip out_path"
    and n: "fs_lookup (fs w) to_zip = Some n" "wf_node n"
  shows "zip_tree out_path to_zip w
     = (outcome (rel_files n),
        w\<lparr>fs := fs_store out_path (File rw (Zip (map entry_of (written (rel_files n)))))
                 (fs_store out_path (File rw (Zip [])) (fs w)),
          log := log w @ [Zip_open out_path]
                 @ map (write_under to_zip []) (attempted (rel_files n))
                 @ [Zip_close out_path]\<rparr>)"
proof -
  let ?root1 = "fs_store out_path (File rw (Zip [])) (fs w)"
  let ?w1 = "w\<lparr>log := log w @ [Zip_open out_path], fs := ?root1\<rparr>"
  have op: "effect (Zip_open out_path) (write_file out_path (Zip [])) w = (Inr (), ?w1)"
    using write_file_new [OF out] by (simp add: effect_def)
  have look1: "fs_lookup (fs (snd ([], ?w1))) (to_zip @ []) = Some n"
    using n(1) fs_store_frame [OF tz(3,4)] by simp
  have walk: "os_walk_str (fs ?w1) (path_str to_zip) = os_walk (path_str to_zip) n"
    using look1 by (simp add: os_walk_str_def parts_path_str [OF tz(2)])
  have "write_walk (length (path_str to_zip) + 1) (os_walk (path_str to_zip) n) ([], ?w1)
      = pass_result to_zip [] (rel_files n) ([], ?w1)"
    using look1 n(2) by (intro walk_entries(1) [OF tz(1,2), rule_format]) simp_all
  with op walk show ?thesis
    by (simp add: zip_tree_def pass_result_def entry_under_Nil)
qed

lemma readable_all:
  "readable n \<longrightarrow> list_all is_readable (rel_files n)"
  "readable_entries es \<longrightarrow>
     list_all is_readable (file_entries es) \<and> list_all is_readable (rel_files_dirs es)"
  by (induction n and es rule: rel_files_rel_files_dirs.induct)
     (auto simp add: is_readable_def list_all_iff split: node.splits)

lemma package_run:
  assumes out: "out_path = path_div (path_div (PATH_ROOT E) ''build'')
        (out_name (self_config self) (self_version self) qt_versions disttype)"
      "out_path \<noteq> []" "path_is_dir (fs w) (butlast out_path)" "\<not> path_is_dir (fs w) out_path"
    and tz: "to_zip = self_path_dist_module self" "to_zip \<noteq> []" "list_all plain to_zip"
      "\<not> prefix out_path to_zip" "\<not> prefix to_zip out_path"
    and n: "fs_lookup (fs w) to_zip = Some n" "wf_node n"
  shows "\<exists>w'. package E self qt_versions disttype w
        = (map_sum id (\<lambda>_. out_path) (outcome (rel_files n)), w')
     \<and> fs w' = fs_store out_path (File rw (Zip (map entry_of (written (rel_files n)))))
                 (fs_store out_path (File rw (Zip []))
                    (if path_exists (fs w) out_path then fs_remove out_path (fs w) else fs w))
     \<and> fs_lookup (fs w') out_path
          = Some (File rw (Zip (map entry_of (written (rel_files n)))))
     \<and> (\<forall>q. \<not> prefix out_path q \<longrightarrow> \<not> prefix q out_path \<longrightarrow>
            fs_lookup (fs w') q = fs_lookup (fs w) q)
     \<and> log w' = log w @ [Log_info ''Packaging add-on...'']
          @ (if path_exists (fs w) out_path then [Unlink out_path] else [])
          @ [Zip_open out_path]
          @ map (write_under to_zip []) (attempted (rel_files n))
          @ [Zip_close out_path]
          @ (if list_all is_readable (rel_files n)
             then [Log_info (''Package saved as ''
                     @ out_name (self_config self) (self_version self) qt_versions disttype),
                   Log_info ''Done.'']
             else [])"
proof -
  let ?nm = "out_name (self_config self) (self_version self) qt_versions disttype"
  let ?w0 = "w\<lparr>log := log w @ [Log_info ''Packaging add-on...'']\<rparr>"
  define root1 where "root1 = (if path_exists (fs w) out_path then fs_remove out_path (fs w)
      else fs w)"
  define w1 where "w1 = ?w0\<lparr>log := log ?w0
      @ (if path_exists (fs w) out_path then [Unlink out_path] else []), fs := root1\<rparr>"
  have un: "only_if (path_exists (fs w) out_path) (effect (Unlink out_path) (unlink out_path)) ?w0
      = (Inr (), w1)"
  proof (cases "path_exists (fs w) out_path")
    case False
    then show ?thesis by (simp add: only_if_def return_def w1_def root1_def)
  next
    case True
    with out(4) obtain r c where "fs_lookup (fs w) out_path = Some (File r c)"
      by (auto simp add: path_exists_def path_is_dir_def split: node.splits)
    with True show ?thesis
      by (simp add: only_if_def effect_def unlink_def resolve_lookup w1_def root1_def)
  qed
  have fs1: "fs w1 = root1" by (simp add: w1_def)
  have log1: "log w1 = log w @ [Log_info ''Packaging add-on...'']
      @ (if path_exists (fs w) out_path then [Unlink out_path] else [])"
    by (simp add: w1_def)
  have dir1: "path_is_dir (fs w1) (butlast out_path)"
    using out(3) fs_remove_lookup_same(2) [OF out(2,3)] by (simp add: fs1 root1_def)
  have nd1: "fs_lookup (fs w1) out_path = None"
    using fs_remove_lookup_same(1) [OF out(2,3)]
    by (simp add: fs1 root1_def path_exists_def)
  have frame1: "\<not> prefix out_path q \<Longrightarrow> \<not> prefix q out_path \<Longrightarrow>
      fs_lookup (fs w1) q = fs_lookup (fs w) q" for q
    using fs_remove_frame [of out_path q "fs w"] by (simp add: fs1 root1_def)
  have n1: "fs_lookup (fs w1) to_zip = Some n"
    using frame1 [OF tz(4,5)] n(1) by simp
  let ?root2 = "fs_store out_path (File rw (Zip (map entry_of (written (rel_files n)))))
      (fs_store out_path (File rw (Zip [])) (fs w1))"
  let ?w2 = "w1\<lparr>fs := ?root2,
      log := log w1 @ [Zip_open out_path]
        @ map (write_under to_zip []) (attempted (rel_files n))
        @ [Zip_close out_path]\<rparr>"
  have zt: "zip_tree out_path to_zip w1 = (outcome (rel_files n), ?w2)"
    by (rule zip_tree_run [OF out(2) dir1 nd1 tz(2,3,4,5) n1 n(2)])
  define w3 where "w3 = (if list_all is_readable (rel_files n)
      then ?w2\<lparr>log := log ?w2 @ [Log_info (''Package saved as '' @ ?nm), Log_info ''Done.'']\<rparr>
      else ?w2)"
  have run: "package E self qt_versions disttype w
      = (map_sum id (\<lambda>_. out_path) (outcome (rel_files n)), w3)"
    unfolding package_def Let_def out(1) [symmetric] tz(1) [symmetric]
    by (simp add: bind_def emit_def un zt return_def outcome_def w3_def)
  have fs3: "fs w3 = ?root2" by (simp add: w3_def)
  have dir2: "path_is_dir (fs_store out_path (File rw (Zip [])) (fs w1)) (butlast out_path)"
    by (rule fs_store_lookup_same(2) [OF out(2) dir1])
  have look: "fs_lookup (fs w3) out_path
      = Some (File rw (Zip (map entry_of (written (rel_files n)))))"
    unfolding fs3 by (rule fs_store_lookup_same(1) [OF out(2) dir2])
  have frame: "\<forall>q. \<not> prefix out_path q \<longrightarrow> \<not> prefix q out_path \<longrightarrow>
      fs_lookup (fs w3) q = fs_lookup (fs w) q"
    unfolding fs3 using frame1 by (simp add: fs_store_frame)
  have lg: "log w3 = log w @ [Log_info ''Packaging add-on...'']
          @ (if path_exists (fs w) out_path then [Unlink out_path] else [])
          @ [Zip_open out_path]
          @ map (write_under to_zip []) (attempted (rel_files n))
          @ [Zip_close out_path]
          @ (if list_all is_readable (rel_files n)
             then [Log_info (''Package saved as '' @ ?nm), Log_info ''Done.'']
             else [])"
    by (simp add: w3_def log1)
  have fs3': "fs w3 = fs_store out_path (File rw (Zip (map entry_of (written (rel_files n)))))
                 (fs_store out_path (File rw (Zip []))
                    (if path_exists (fs w) out_path then fs_remove out_path (fs w) else fs w))"
    unfolding fs3 fs1 root1_def ..
  from run fs3' look frame lg show ?thesis by blast
qed

subsection \<open>The files of a well-formed tree\<close>

lemma wf_entries_iff: "wf_entries es \<longleftrightarrow> (\<forall>e \<in> set es. plain (fst e) \<and> wf_node (snd e))"
  by (induction es) auto

lemma file_entries_mem:
  "(r, b, c) \<in> set (file_entries es) \<longleftrightarrow> (\<exists>e \<in> set es. r = [fst e] \<and> snd e = File b c)"
  by (induction es) (auto split: node.splits)

lemma rel_files_dirs_mem:
  "(r, bc) \<in> set (rel_files_dirs es)
     \<longleftrightarrow> (\<exists>e \<in> set es. \<exists>q. r = fst e # q \<and> (q, bc) \<in> set (rel_files (snd e)))"
  by (induction es) (force simp add: image_iff)+

lemma lookup_Dir_distinct:
  assumes "distinct (map fst es)"
  shows "fs_lookup (Dir es) (x # xs) = Some m
     \<longleftrightarrow> (\<exists>e \<in> set es. fst e = x \<and> fs_lookup (snd e) xs = Some m)"
proof
  assume "fs_lookup (Dir es) (x # xs) = Some m"
  then obtain ch where "map_of es x = Some ch" "fs_lookup ch xs = Some m"
    by (auto split: option.splits)
  then have "(x, ch) \<in> set es" "fs_lookup ch xs = Some m"
    by (auto dest: map_of_SomeD)
  then show "\<exists>e \<in> set es. fst e = x \<and> fs_lookup (snd e) xs = Some m"
    by force
next
  assume "\<exists>e \<in> set es. fst e = x \<and> fs_lookup (snd e) xs = Some m"
  then obtain e where e: "e \<in> set es" "fst e = x" "fs_lookup (snd e) xs = Some m" by blast
  with assms have "map_of es x = Some (snd e)" by (cases e) simp
  with e show "fs_lookup (Dir es) (x # xs) = Some m" by simp
qed

lemma rel_files_mem:
  "wf_node n \<Longrightarrow>
   (r, b, c) \<in> set (rel_files n) \<longleftrightarrow> r \<noteq> [] \<and> fs_lookup n r = Some (File b c)"
proof (induction n arbitrary: r)
  case (File b' c')
  show ?case by (cases r) simp_all
next
  case (Dir es)
  from Dir.prems have d: "distinct (map fst es)" and
    wf: "\<And>e. e \<in> set es \<Longrightarrow> wf_node (snd e)"
    by (simp_all add: wf_entries_iff)
  have IH: "(q, b, c) \<in> set (rel_files (snd e))
      \<longleftrightarrow> q \<noteq> [] \<and> fs_lookup (snd e) q = Some (File b c)"
    if "e \<in> set es" for e q
    using Dir.IH [of e "snd e" q] that wf [OF that] by (cases e) simp
  show ?case
  proof (cases r)
    case Nil
    then show ?thesis
      by (auto simp add: file_entries_mem rel_files_dirs_mem)
  next
    case (Cons x xs)
    have "(r, b, c) \<in> set (rel_files (Dir es))
        \<longleftrightarrow> (\<exists>e \<in> set es. fst e = x \<and> ((xs = [] \<and> snd e = File b c)
              \<or> (xs, b, c) \<in> set (rel_files (snd e))))"
      unfolding Cons by (auto simp add: file_entries_mem rel_files_dirs_mem)
    also have "\<dots> \<longleftrightarrow> (\<exists>e \<in> set es. fst e = x \<and> fs_lookup (snd e) xs = Some (File b c))"
    proof (rule bex_cong [OF refl])
      fix e assume e: "e \<in> set es"
      show "(fst e = x \<and> ((xs = [] \<and> snd e = File b c)
              \<or> (xs, b, c) \<in> set (rel_files (snd e))))
          \<longleftrightarrow> (fst e = x \<and> fs_lookup (snd e) xs = Some (File b c))"
        unfolding IH [OF e] by (cases xs) auto
    qed
    also have "\<dots> \<longleftrightarrow> fs_lookup (Dir es) (x # xs) = Some (File b c)"
      unfolding lookup_Dir_distinct [OF d] by blast
    finally show ?thesis using Cons by simp
  qed
qed

lemma lookup_plain:
  "wf_node n \<Longrightarrow> fs_lookup n r = Some m \<Longrightarrow> list_all plain r"
proof (induction r arbitrary: n)
  case Nil
  show ?case by simp
next
  case (Cons x xs)
  from fs_lookup_Cons_Some [OF Cons.prems(2)] obtain es ch where
    n: "n = Dir es" "map_of es x = Some ch" "fs_lookup ch xs = Some m"
    by blast
  then have "(x, ch) \<in> set es" by (auto dest: map_of_SomeD)
  with Cons.prems(1) n(1) have "plain x" "wf_node ch"
    by (auto simp add: wf_entries_iff)
  with Cons.IH [OF _ n(3)] show ?case by simp
qed

lemma rel_files_plain:
  "wf_node n \<Longrightarrow> (r, bc) \<in> set (rel_files n) \<Longrightarrow> list_all plain r \<and> r \<noteq> []"
  using lookup_plain [of n r] by (cases bc) (auto simp add: rel_files_mem)

lemma path_str_join: "r \<noteq> [] \<Longrightarrow> path_str r = ''/'' @ str_join ''/'' r"
proof (induction r)
  case Nil
  then show ?case by simp
next
  case (Cons x xs)
  then show ?case by (cases xs) (simp_all add: path_str_def)
qed

lemma str_join_inj:
  assumes "list_all plain r" "list_all plain r'" "r \<noteq> []" "r' \<noteq> []"
    and "str_join ''/'' r = str_join ''/'' r'"
  shows "r = r'"
proof -
  from assms(3-5) have "path_str r = path_str r'" by (simp add: path_str_join)
  then have "parts (path_str r) = parts (path_str r')" by simp
  with assms(1,2) show ?thesis by (simp add: parts_path_str)
qed

lemma rel_files_not_Nil: "([], bc) \<notin> set (rel_files n)"
proof (cases n)
  case (File b c')
  then show ?thesis by simp
next
  case (Dir es)
  then show ?thesis by (cases bc) (auto simp add: file_entries_mem rel_files_dirs_mem)
qed

lemma file_entries_paths: "p \<in> set (map fst (file_entries es)) \<Longrightarrow> \<exists>e \<in> set es. p = [fst e]"
  by (auto simp add: file_entries_mem)

lemma rel_files_dirs_paths:
  "p \<in> set (map fst (rel_files_dirs es)) \<Longrightarrow>
   \<exists>e \<in> set es. \<exists>q. q \<noteq> [] \<and> p = fst e # q \<and> q \<in> set (map fst (rel_files (snd e)))"
proof -
  assume "p \<in> set (map fst (rel_files_dirs es))"
  then obtain bc where "(p, bc) \<in> set (rel_files_dirs es)" by auto
  then obtain e q where e: "e \<in> set es" "p = fst e # q" "(q, bc) \<in> set (rel_files (snd e))"
    by (auto simp add: rel_files_dirs_mem)
  with rel_files_not_Nil [of bc "snd e"] have "q \<noteq> []" by auto
  with e show ?thesis by force
qed

lemma distinct_file_entries: "distinct (map fst es) \<Longrightarrow> distinct (map fst (file_entries es))"
proof (induction es)
  case Nil
  show ?case by simp
next
  case (Cons e es)
  then have "[fst e] \<notin> set (map fst (file_entries es))"
    by (auto dest!: file_entries_paths [of _ es, simplified])
  with Cons show ?case by (auto split: node.splits)
qed

lemma distinct_rel_files_dirs:
  "distinct (map fst es) \<Longrightarrow> (\<forall>e \<in> set es. distinct (map fst (rel_files (snd e)))) \<Longrightarrow>
   distinct (map fst (rel_files_dirs es))"
proof (induction es)
  case Nil
  show ?case by simp
next
  case (Cons e es)
  have m: "map fst (map (\<lambda>f. (fst e # fst f, snd f)) (rel_files (snd e)))
      = map ((#) (fst e)) (map fst (rel_files (snd e)))"
    by simp
  have d1: "distinct (map ((#) (fst e)) (map fst (rel_files (snd e))))"
    using Cons.prems(2) by (simp add: distinct_map del: map_map)
  have d2: "distinct (map fst (rel_files_dirs es))"
    using Cons by simp
  have dj: "set (map ((#) (fst e)) (map fst (rel_files (snd e))))
      \<inter> set (map fst (rel_files_dirs es)) = {}"
  proof (rule ccontr)
    assume "\<not> ?thesis"
    then obtain p where p: "p \<in> set (map ((#) (fst e)) (map fst (rel_files (snd e))))"
      "p \<in> set (map fst (rel_files_dirs es))" by blast
    from rel_files_dirs_paths [OF p(2)] obtain e' q where "e' \<in> set es" "p = fst e' # q" by blast
    moreover from p(1) have "hd p = fst e" by auto
    ultimately have "e' \<in> set es" "fst e' = fst e" by auto
    then have "fst e \<in> fst ` set es" by (metis imageI)
    with Cons.prems(1) show False by simp
  qed
  show ?case
    unfolding rel_files_dirs.simps map_append m using d1 d2 dj by simp
qed

lemma distinct_rel_files: "wf_node n \<Longrightarrow> distinct (map fst (rel_files n))"
proof (induction n)
  case (File b c)
  show ?case by simp
next
  case (Dir es)
  from Dir.prems have d: "distinct (map fst es)" and
    wf: "\<And>e. e \<in> set es \<Longrightarrow> wf_node (snd e)"
    by (simp_all add: wf_entries_iff)
  have sub: "\<forall>e \<in> set es. distinct (map fst (rel_files (snd e)))"
  proof
    fix e assume e: "e \<in> set es"
    from Dir.IH [of e "snd e"] e wf [OF e] show "distinct (map fst (rel_files (snd e)))"
      by (cases e) simp
  qed
  have "set (map fst (file_entries es)) \<inter> set (map fst (rel_files_dirs es)) = {}"
  proof (rule ccontr)
    assume "\<not> ?thesis"
    then obtain p where p: "p \<in> set (map fst (file_entries es))"
      "p \<in> set (map fst (rel_files_dirs es))" by blast
    from file_entries_paths [OF p(1)] rel_files_dirs_paths [OF p(2)] show False by auto
  qed
  with distinct_file_entries [OF d] distinct_rel_files_dirs [OF d sub]
  show ?case by simp
qed

lemma distinct_entry_names:
  assumes "wf_node n"
  shows "distinct (map fst (map entry_of (rel_files n)))"
proof -
  have m: "map fst (map entry_of (rel_files n)) = map (str_join ''/'') (map fst (rel_files n))"
    by (simp add: entry_of_def comp_def)
  have "inj_on (str_join ''/'') (set (map fst (rel_files n)))"
  proof (rule inj_onI)
    fix r r'
    assume r: "r \<in> set (map fst (rel_files n))" "r' \<in> set (map fst (rel_files n))"
      and eq: "str_join ''/'' r = str_join ''/'' r'"
    from r obtain bc bc' where "(r, bc) \<in> set (rel_files n)" "(r', bc') \<in> set (rel_files n)"
      by auto
    with rel_files_plain [OF assms] have "list_all plain r \<and> r \<noteq> []" "list_all plain r' \<and> r' \<noteq> []"
      by blast+
    with eq show "r = r'" by (auto intro: str_join_inj)
  qed
  with distinct_rel_files [OF assms] show ?thesis
    unfolding m by (simp add: distinct_map del: map_map)
qed

lemma strict_prefix_written:
  "\<not> list_all is_readable fl \<Longrightarrow> strict_prefix (written fl) fl"
proof -
  assume a: "\<not> list_all is_readable fl"
  have "fl = written fl @ dropWhile is_readable fl"
    by (simp add: written_def)
  then have "prefix (written fl) fl" by (metis prefixI)
  moreover from length_written_less [OF a] have "written fl \<noteq> fl" by auto
  ultimately show ?thesis by (simp add: strict_prefix_def)
qed

subsection \<open>Stages as lists of steps\<close>

lemma run_calls_Cons:
  "run_calls E self (ev # evs) = bind (effect ev (call E self ev)) (\<lambda>_. run_calls E self evs)"
  by (rule ext) (simp add: bind_def effect_def Let_def split: sum.splits)

lemma run_calls_Nil: "run_calls E self [] = return ()"
  by (rule ext) (simp add: return_def)

lemma effect_message: "effect ev Inr = emit ev"
  by (rule ext) (simp add: effect_def emit_def)

lemma run_steps_Nil: "run_steps E self [] = return ()"
  by (rule ext) (simp add: return_def)

lemma run_steps_Cons:
  "run_steps E self (st # sts)
     = bind (\<lambda>w. run_calls E self (st (fs w)) w) (\<lambda>_. run_steps E self sts)"
  by (rule ext) (simp add: bind_def split: prod.splits sum.splits)

lemma bind_assoc: "bind (bind m f) g = bind m (\<lambda>x. bind (f x) g)"
  by (rule ext) (simp add: bind_def split: prod.splits sum.splits)

lemma bind_return: "bind m return = m"
  by (rule ext) (simp add: bind_def return_def split: prod.splits sum.splits)

lemma bind_return_unit: "bind m (\<lambda>_. return ()) = (m :: unit stmt)"
  by (rule ext) (simp add: bind_def return_def split: prod.splits sum.splits)

lemma return_bind: "bind (return x) f = f x"
  by (rule ext) (simp add: bind_def return_def)

lemma run_steps_append:
  "run_steps E self (a @ b) = bind (run_steps E self a) (\<lambda>_. run_steps E self b)"
  by (induction a) (simp_all add: run_steps_Nil run_steps_Cons return_bind bind_assoc)

lemma always_step: "(\<lambda>w. run_calls E self (always evs (fs w)) w) = run_calls E self evs"
  by (rule ext) (simp add: always_def)

lemma only_if_const: "(\<lambda>w. only_if b m w) = (if b then m else return ())"
  by (rule ext) (simp add: only_if_def)

lemma provided_step:
  "(\<lambda>w. run_calls E self (provided c evs (fs w)) w)
     = (\<lambda>w. only_if (c (fs w)) (run_calls E self evs) w)"
  by (rule ext) (simp add: provided_def only_if_def return_def)

lemmas steps_simps =
  run_steps_append run_steps_Cons run_steps_Nil always_step provided_step
  run_calls_Cons run_calls_Nil effect_message
  bind_assoc bind_return bind_return_unit return_bind only_if_const






lemma clean_repo_steps: "clean_repo E = run_steps E self (cleaning_steps E)"
  unfolding clean_repo_def cleaning_steps_def
  by (simp add: steps_simps trash_patterns_def del: run_calls.simps run_steps.simps)

lemma create_dist_steps: "create_dist E self = run_steps E self (preparation_steps E self)"
  unfolding create_dist_def preparation_steps_def
  by (simp add: steps_simps clean_repo_steps [symmetric]
        del: run_calls.simps run_steps.simps)

lemma run_steps_preparation:
  "run_steps E self (preparation_steps E self) v
     = (let pd = PATH_DIST E;
            v0 = v\<lparr>log := log v @ [Log_info (''Preparing source tree for ''
                   @ cfg_display_name (self_config self) @ '' '' @ self_version self @ '' ...''),
                 Log_info ''Cleaning repository...'']\<rparr>
        in if path_exists (fs v) pd
           then (case rmtree pd (fs v) of
                   Inl e \<Rightarrow> (Inl e, v0\<lparr>log := log v0 @ [Rmtree pd]\<rparr>)
                 | Inr root1 \<Rightarrow>
                     run_steps E self
                       [always [Purge ''.'' [''*.pyc'', ''*.pyo'', ''__pycache__''] True],
                        always [Mkdir pd], always [Git_archive (self_version self) pd]]
                       (v0\<lparr>log := log v0 @ [Rmtree pd], fs := root1\<rparr>))
           else run_steps E self
                  [always [Purge ''.'' [''*.pyc'', ''*.pyo'', ''__pycache__''] True],
                   always [Mkdir pd], always [Git_archive (self_version self) pd]] v0)"
  by (simp add: preparation_steps_def cleaning_steps_def always_def provided_def Let_def
        split: sum.splits)

lemma create_dist_chain:
  assumes "create_dist E self v = (Inr (), v1)"
  shows "\<exists>root1 root2 root3.
       (if path_exists (fs v) (PATH_DIST E) then rmtree (PATH_DIST E) (fs v) = Inr root1
        else root1 = fs v)
     \<and> \<not> path_exists root1 (PATH_DIST E)
     \<and> purge E ''.'' [''*.pyc'', ''*.pyo'', ''__pycache__''] True root1 = Inr root2
     \<and> mkdir_parents (PATH_DIST E) root2 = Inr root3
     \<and> fs_lookup root3 (PATH_DIST E) = Some (Dir [])
     \<and> git_archive E (self_version self) (PATH_DIST E) root3 = Inr (fs v1)
     \<and> log v1 = log v
         @ [Log_info (''Preparing source tree for '' @ cfg_display_name (self_config self)
                      @ '' '' @ self_version self @ '' ...''),
            Log_info ''Cleaning repository...'']
         @ (if path_exists (fs v) (PATH_DIST E) then [Rmtree (PATH_DIST E)] else [])
         @ [Purge ''.'' [''*.pyc'', ''*.pyo'', ''__pycache__''] True,
            Mkdir (PATH_DIST E),
            Git_archive (self_version self) (PATH_DIST E)]"
proof (cases "path_exists (fs v) (PATH_DIST E)")
  case True
  with assms obtain root1 root2 root3 where
    "rmtree (PATH_DIST E) (fs v) = Inr root1"
    "purge E ''.'' [''*.pyc'', ''*.pyo'', ''__pycache__''] True root1 = Inr root2"
    "mkdir_parents (PATH_DIST E) root2 = Inr root3"
    "git_archive E (self_version self) (PATH_DIST E) root3 = Inr (fs v1)"
    "log v1 = log v
         @ [Log_info (''Preparing source tree for '' @ cfg_display_name (self_config self)
                      @ '' '' @ self_version self @ '' ...''),
            Log_info ''Cleaning repository...'', Rmtree (PATH_DIST E),
            Purge ''.'' [''*.pyc'', ''*.pyo'', ''__pycache__''] True,
            Mkdir (PATH_DIST E),
            Git_archive (self_version self) (PATH_DIST E)]"
    unfolding create_dist_steps run_steps_preparation
    by (auto simp add: Let_def always_def split: sum.splits)
  with True rmtree_removes [of "PATH_DIST E" "fs v" root1]
    mkdir_parents_makes [of "PATH_DIST E" root2 root3]
  show ?thesis by auto
next
  case False
  with assms obtain root2 root3 where
    "purge E ''.'' [''*.pyc'', ''*.pyo'', ''__pycache__''] True (fs v) = Inr root2"
    "mkdir_parents (PATH_DIST E) root2 = Inr root3"
    "git_archive E (self_version self) (PATH_DIST E) root3 = Inr (fs v1)"
    "log v1 = log v
         @ [Log_info (''Preparing source tree for '' @ cfg_display_name (self_config self)
                      @ '' '' @ self_version self @ '' ...''),
            Log_info ''Cleaning repository...'',
            Purge ''.'' [''*.pyc'', ''*.pyo'', ''__pycache__''] True,
            Mkdir (PATH_DIST E),
            Git_archive (self_version self) (PATH_DIST E)]"
    unfolding create_dist_steps run_steps_preparation
    by (auto simp add: Let_def always_def split: sum.splits)
  with False mkdir_parents_makes [of "PATH_DIST E" root2 root3]
  show ?thesis by auto
qed

subsection \<open>The license copy\<close>

lemma parts_single: "x \<noteq> [] \<Longrightarrow> CHR ''/'' \<notin> set x \<Longrightarrow> x \<noteq> ''.'' \<Longrightarrow> parts x = [x]"
  by (simp add: parts_def split_sep_no_sep)

lemma set_stem: "set (stem nm) \<subseteq> set nm"
  by (auto simp add: stem_def split: option.splits dest: in_set_takeD)

lemma path_div_single:
  "x \<noteq> [] \<Longrightarrow> CHR ''/'' \<notin> set x \<Longrightarrow> x \<noteq> ''.'' \<Longrightarrow> path_div p x = p @ [x]"
  by (cases x) (auto simp add: path_div_def parts_single)

lemma license_target_form:
  assumes "CHR ''/'' \<notin> set (last s)"
  shows "license_target self s = self_path_dist_module self @ [stem (last s) @ ''.txt'']"
proof -
  have "CHR ''/'' \<notin> set (stem (last s) @ ''.txt'')"
    using assms set_stem [of "last s"] by auto
  moreover have "stem (last s) @ ''.txt'' \<noteq> ''.''"
    by (cases "stem (last s)") simp_all
  ultimately show ?thesis
    unfolding license_target_def by (intro path_div_single) simp_all
qed

lemma incomparable_same_length:
  "length a = length b \<Longrightarrow> a \<noteq> b \<Longrightarrow> \<not> prefix a b \<and> \<not> prefix b a"
  by (auto simp add: prefix_def)

lemma content_at_cong:
  "fs_lookup root p = fs_lookup root' p' \<Longrightarrow> content_at root p = content_at root' p'"
  by (simp add: content_at_def)

lemma write_file_free:
  assumes "p \<noteq> []" "path_is_dir root (butlast p)" "free_or_writable root p"
  shows "\<exists>r. can_write r \<and> write_file p c root = Inr (fs_store p (File r c) root)"
proof (cases "fs_lookup root p")
  case None
  from write_file_new [OF assms(1,2) this, of c]
  have "can_write rw \<and> write_file p c root = Inr (fs_store p (File rw c) root)" by simp
  then show ?thesis ..
next
  case (Some n)
  with assms(3) obtain r old where n: "n = File r old" and r: "can_write r"
    by (cases n) (simp_all add: free_or_writable_def)
  from write_file_over [OF assms(1) Some [unfolded n] r] r show ?thesis by auto
qed

lemma copy_license_files_run:
  assumes md: "path_is_dir (fs w) (self_path_dist_module self)"
    and each: "\<forall>s \<in> set fls. CHR ''/'' \<notin> set (last s)
        \<and> readable_file (fs w) s
        \<and> free_or_writable (fs w) (license_target self s)"
    and inc: "\<forall>s \<in> set fls. \<forall>x. \<not> prefix (self_path_dist_module self @ [x]) s
        \<and> \<not> prefix s (self_path_dist_module self @ [x])"
  shows "\<exists>w'. copy_license_files self fls w = (Inr (), w')
     \<and> log w' = log w @ map (\<lambda>s. Copyfile s (license_target self s)) fls
     \<and> path_is_dir (fs w') (self_path_dist_module self)
     \<and> (\<forall>q. (\<forall>s \<in> set fls. \<not> prefix (license_target self s) q
                               \<and> \<not> prefix q (license_target self s))
            \<longrightarrow> fs_lookup (fs w') q = fs_lookup (fs w) q)
     \<and> (\<forall>s \<in> set fls. content_at (fs w') (license_target self s)
            = content_at (fs w)
                (last (filter (\<lambda>s'. license_target self s' = license_target self s) fls)))"
  using assms
proof (induction fls arbitrary: w)
  case Nil
  then show ?case by (simp add: return_def)
next
  case (Cons s fls)
  let ?md = "self_path_dist_module self"
  let ?T = "license_target self"
  let ?t = "license_target self s"
  from Cons.prems(2) have ns: "CHR ''/'' \<notin> set (last s)" and rd: "readable_file (fs w) s"
    and fw: "free_or_writable (fs w) ?t"
    by auto
  from rd obtain r c where src: "fs_lookup (fs w) s = Some (File r c)" and r: "can_read r"
    by (auto simp add: readable_file_def split: option.splits node.splits)
  have t: "?t = ?md @ [stem (last s) @ ''.txt'']" by (rule license_target_form [OF ns])
  have st: "\<not> prefix ?t s" "\<not> prefix s ?t" using Cons.prems(3) t by simp_all
  then have ne: "s \<noteq> ?t" by auto
  have bt: "butlast ?t = ?md" "?t \<noteq> []" using t by simp_all
  from write_file_free [OF bt(2) _ fw, of c] bt(1) Cons.prems(1) obtain r1 where
    r1: "can_write r1" and wr: "write_file ?t c (fs w) = Inr (fs_store ?t (File r1 c) (fs w))"
    by auto
  let ?root1 = "fs_store ?t (File r1 c) (fs w)"
  let ?w1 = "w\<lparr>log := log w @ [Copyfile s ?t], fs := ?root1\<rparr>"
  have cp: "effect (Copyfile s ?t) (copyfile s ?t) w = (Inr (), ?w1)"
    using ne src r wr by (simp add: effect_def copyfile_def resolve_lookup)
  have md1: "path_is_dir (fs ?w1) ?md"
    using fs_store_lookup_same(2) [of ?t "fs w" "File r1 c"] bt Cons.prems(1) by simp
  have t1: "fs_lookup (fs ?w1) ?t = Some (File r1 c)"
    using fs_store_lookup_same(1) [of ?t "fs w" "File r1 c"] bt Cons.prems(1) by simp
  have frame1: "fs_lookup (fs ?w1) q = fs_lookup (fs w) q" if "\<not> prefix ?t q" "\<not> prefix q ?t" for q
    using that by (simp add: fs_store_frame)
  have src_same: "fs_lookup (fs ?w1) s' = fs_lookup (fs w) s'" if "s' \<in> set fls" for s'
    using Cons.prems(3) that t by (intro frame1) simp_all
  have tform: "?T s' = ?md @ [stem (last s') @ ''.txt'']" if "s' \<in> set fls" for s'
    using Cons.prems(2) that by (intro license_target_form) simp
  have apart: "\<not> prefix (?T s') ?t \<and> \<not> prefix ?t (?T s')" if "s' \<in> set fls" "?T s' \<noteq> ?t" for s'
    using t tform [OF that(1)] that(2) by (intro incomparable_same_length) simp_all
  have each1: "\<forall>s' \<in> set fls. CHR ''/'' \<notin> set (last s')
        \<and> readable_file (fs ?w1) s'
        \<and> free_or_writable (fs ?w1) (?T s')"
  proof
    fix s' assume s': "s' \<in> set fls"
    with Cons.prems(2) have ns': "CHR ''/'' \<notin> set (last s')" and rd': "readable_file (fs w) s'"
      and fw': "free_or_writable (fs w) (?T s')"
      by auto
    from rd' src_same [OF s'] have rd1: "readable_file (fs ?w1) s'"
      by (simp add: readable_file_def)
    have "free_or_writable (fs ?w1) (?T s')"
    proof (cases "?T s' = ?t")
      case True
      with t1 r1 show ?thesis by (simp add: free_or_writable_def)
    next
      case False
      from apart [OF s' False] frame1 [of "?T s'"] fw' show ?thesis
        by (simp add: free_or_writable_def)
    qed
    with ns' rd1 show "CHR ''/'' \<notin> set (last s')
        \<and> readable_file (fs ?w1) s' \<and> free_or_writable (fs ?w1) (?T s')"
      by simp
  qed
  have inc1: "\<forall>s \<in> set fls. \<forall>x. \<not> prefix (?md @ [x]) s \<and> \<not> prefix s (?md @ [x])"
    using Cons.prems(3) by simp
  from Cons.IH [OF md1 each1 inc1] obtain w' where
    run: "copy_license_files self fls ?w1 = (Inr (), w')" and
    lg: "log w' = log ?w1 @ map (\<lambda>s. Copyfile s (?T s)) fls" and
    md': "path_is_dir (fs w') ?md" and
    frame: "\<forall>q. (\<forall>s \<in> set fls. \<not> prefix (?T s) q \<and> \<not> prefix q (?T s))
            \<longrightarrow> fs_lookup (fs w') q = fs_lookup (fs ?w1) q" and
    tg: "\<forall>s \<in> set fls. content_at (fs w') (?T s)
            = content_at (fs ?w1) (last (filter (\<lambda>s'. ?T s' = ?T s) fls))"
    by blast
  have run': "copy_license_files self (s # fls) w = (Inr (), w')"
    using cp run by (simp add: bind_def Let_def license_target_def)
  have lg': "log w' = log w @ map (\<lambda>s. Copyfile s (?T s)) (s # fls)"
    using lg by simp
  have frame': "\<forall>q. (\<forall>s' \<in> set (s # fls). \<not> prefix (?T s') q \<and> \<not> prefix q (?T s'))
            \<longrightarrow> fs_lookup (fs w') q = fs_lookup (fs w) q"
    using frame frame1 by simp
  have tg_tail: "content_at (fs w') (?T s'')
      = content_at (fs w) (last (filter (\<lambda>s'. ?T s' = ?T s'') (s # fls)))"
    if s'': "s'' \<in> set fls" for s''
  proof -
    let ?f = "filter (\<lambda>s'. ?T s' = ?T s'') fls"
    from s'' have nonempty: "?f \<noteq> []" by (auto simp add: filter_empty_conv)
    then have "last ?f \<in> set ?f" by (rule last_in_set)
    then have mem: "last ?f \<in> set fls" by simp
    from nonempty have "last (filter (\<lambda>s'. ?T s' = ?T s'') (s # fls)) = last ?f" by simp
    moreover from tg s'' have "content_at (fs w') (?T s'') = content_at (fs ?w1) (last ?f)"
      by simp
    moreover have "content_at (fs ?w1) (last ?f) = content_at (fs w) (last ?f)"
      by (rule content_at_cong) (rule src_same [OF mem])
    ultimately show ?thesis by simp
  qed
  have tg_head: "content_at (fs w') ?t
      = content_at (fs w) (last (filter (\<lambda>s'. ?T s' = ?t) (s # fls)))"
  proof (cases "?t \<in> ?T ` set fls")
    case True
    then obtain s'' where s'': "s'' \<in> set fls" "?T s'' = ?t" by auto
    from tg_tail [OF s''(1)] s''(2) show ?thesis by simp
  next
    case False
    then have "\<forall>s' \<in> set fls. ?T s' \<noteq> ?t" by (metis imageI)
    then have none: "filter (\<lambda>s'. ?T s' = ?t) fls = []"
      by (simp add: filter_empty_conv)
    have "\<forall>s' \<in> set fls. \<not> prefix (?T s') ?t \<and> \<not> prefix ?t (?T s')"
    proof
      fix s' assume s': "s' \<in> set fls"
      with False have "?T s' \<noteq> ?t" by (metis imageI)
      from apart [OF s' this] show "\<not> prefix (?T s') ?t \<and> \<not> prefix ?t (?T s')" .
    qed
    with frame have "fs_lookup (fs w') ?t = fs_lookup (fs ?w1) ?t" by blast
    with t1 src none show ?thesis by (simp add: content_at_def)
  qed
  have tg': "\<forall>s'' \<in> set (s # fls). content_at (fs w') (?T s'')
      = content_at (fs w) (last (filter (\<lambda>s'. ?T s' = ?T s'') (s # fls)))"
    using tg_head tg_tail by auto
  from run' lg' md' frame' tg' show ?case by blast
qed

lemma copy_license_files_append:
  "copy_license_files self (a @ b) w
     = bind (copy_license_files self a) (\<lambda>_. copy_license_files self b) w"
proof (induction a arbitrary: w)
  case Nil
  show ?case by (simp add: bind_def return_def)
next
  case (Cons s a)
  show ?case
    by (cases "effect (Copyfile s (path_div (self_path_dist_module self) (stem (last s) @ ''.txt'')))
                 (copyfile s (path_div (self_path_dist_module self) (stem (last s) @ ''.txt''))) w")
       (auto simp add: bind_def Let_def Cons split: sum.splits)
qed

lemma diverge: "x \<noteq> y \<Longrightarrow> \<not> prefix (a @ x # xs) (a @ y # ys) \<and> \<not> prefix (a @ y # ys) (a @ x # xs)"
  by simp

lemma glob_prefix_mem:
  "s \<in> set (glob_prefix root p pre)
     \<longleftrightarrow> (\<exists>es e. fs_lookup root p = Some (Dir es) \<and> e \<in> set es
            \<and> prefix pre (fst e) \<and> s = p @ [fst e])"
proof (cases "fs_lookup root p")
  case None
  then show ?thesis by (simp add: glob_prefix_def)
next
  case (Some n)
  show ?thesis
  proof (cases n)
    case (File b c)
    with Some show ?thesis by (simp add: glob_prefix_def)
  next
    case (Dir es)
    with Some show ?thesis by (force simp add: glob_prefix_def)
  qed
qed

lemma license_sources_mem:
  "s \<in> set (license_sources root E)
     \<longleftrightarrow> (\<exists>p \<in> set (paths_licenses E). \<exists>es e. fs_lookup root p = Some (Dir es)
            \<and> e \<in> set es \<and> prefix ''LICENSE'' (fst e) \<and> s = p @ [fst e])"
proof -
  have "s \<in> set (license_sources root E)
      \<longleftrightarrow> (\<exists>p \<in> set (paths_licenses E). path_is_dir root p
             \<and> s \<in> set (glob_prefix root p ''LICENSE''))"
    by (auto simp add: license_sources_def split: if_splits)
  also have "\<dots> \<longleftrightarrow> (\<exists>p \<in> set (paths_licenses E). \<exists>es e. fs_lookup root p = Some (Dir es)
            \<and> e \<in> set es \<and> prefix ''LICENSE'' (fst e) \<and> s = p @ [fst e])"
    unfolding glob_prefix_mem by (rule bex_cong [OF refl]) (auto simp add: path_is_dir_def)
  finally show ?thesis .
qed

lemma paths_licenses_eq:
  "paths_licenses E = [PATH_DIST E, PATH_DIST E @ [''resources'']]"
  by (simp add: paths_licenses_def path_div_def parts_def)

lemma module_dir_form:
  assumes "self_path_dist_module self = path_div (path_div (PATH_DIST E) ''src'') m"
    "take 1 m \<noteq> ''/''"
  shows "self_path_dist_module self = PATH_DIST E @ ''src'' # parts m"
  using assms by (simp add: path_div_def parts_def)

lemma license_not_src: "prefix ''LICENSE'' nm \<Longrightarrow> nm \<noteq> ''src''"
  by (auto simp add: prefix_def)

lemma sources_apart:
  assumes md: "md = PATH_DIST E @ ''src'' # ms"
    and s: "s \<in> set (license_sources root E)"
  shows "\<not> prefix (md @ x) s \<and> \<not> prefix s (md @ x)"
proof -
  from s obtain p and e :: "string \<times> node" where
    p: "p \<in> set (paths_licenses E)" and nm': "prefix ''LICENSE'' (fst e)"
    and sp': "s = p @ [fst e]"
    unfolding license_sources_mem by blast
  define nm where "nm = fst e"
  from nm' sp' have nm: "prefix ''LICENSE'' nm" and sp: "s = p @ [nm]"
    by (simp_all add: nm_def)
  from p have "p = PATH_DIST E \<or> p = PATH_DIST E @ [''resources'']"
    by (simp add: paths_licenses_eq)
  then show ?thesis
  proof
    assume "p = PATH_DIST E"
    with sp md license_not_src [OF nm]
    show ?thesis using diverge [of "''src''" nm "PATH_DIST E" "ms @ x" "[]"] by simp
  next
    assume "p = PATH_DIST E @ [''resources'']"
    with sp md show ?thesis
      using diverge [of "''src''" "''resources''" "PATH_DIST E" "ms @ x" "[nm]"] by simp
  qed
qed

lemma copy_license_dirs_flat:
  assumes form: "self_path_dist_module self = path_div (path_div (PATH_DIST E) ''src'') m"
      "take 1 m \<noteq> ''/''"
    and md: "path_is_dir (fs w) (self_path_dist_module self)"
    and each: "\<forall>s \<in> set (license_sources (fs w) E). CHR ''/'' \<notin> set (last s)
        \<and> readable_file (fs w) s
        \<and> free_or_writable (fs w) (license_target self s)"
  shows "copy_license_dirs self (paths_licenses E) w
     = copy_license_files self (license_sources (fs w) E) w"
proof -
  let ?pd = "PATH_DIST E"
  let ?pr = "PATH_DIST E @ [''resources'']"
  let ?md = "self_path_dist_module self"
  define fls1 where "fls1 = (if path_is_dir (fs w) ?pd then glob_prefix (fs w) ?pd ''LICENSE'' else [])"
  define fls2 where "fls2 = (if path_is_dir (fs w) ?pr then glob_prefix (fs w) ?pr ''LICENSE'' else [])"
  have srcs: "license_sources (fs w) E = fls1 @ fls2"
    by (simp add: license_sources_def paths_licenses_eq fls1_def fls2_def)
  note mdf = module_dir_form [OF form]
  have each1: "\<forall>s \<in> set fls1. CHR ''/'' \<notin> set (last s)
        \<and> readable_file (fs w) s
        \<and> free_or_writable (fs w) (license_target self s)"
    using each srcs by simp
  have inc1: "\<forall>s \<in> set fls1. \<forall>x. \<not> prefix (?md @ [x]) s \<and> \<not> prefix s (?md @ [x])"
  proof (intro ballI allI)
    fix s x assume "s \<in> set fls1"
    then have "s \<in> set (license_sources (fs w) E)" using srcs by simp
    from sources_apart [OF mdf this, of "[x]"]
    show "\<not> prefix (?md @ [x]) s \<and> \<not> prefix s (?md @ [x])" .
  qed
  from copy_license_files_run [OF md each1 inc1] obtain w1 where
    run1: "copy_license_files self fls1 w = (Inr (), w1)" and
    frame1: "\<forall>q. (\<forall>s \<in> set fls1. \<not> prefix (license_target self s) q
                               \<and> \<not> prefix q (license_target self s))
            \<longrightarrow> fs_lookup (fs w1) q = fs_lookup (fs w) q"
    by blast
  have tform: "license_target self s = ?md @ [stem (last s) @ ''.txt'']" if "s \<in> set fls1" for s
    using each1 that by (intro license_target_form) simp
  have "\<forall>s \<in> set fls1. \<not> prefix (license_target self s) ?pr \<and> \<not> prefix ?pr (license_target self s)"
  proof
    fix s assume "s \<in> set fls1"
    from tform [OF this] mdf
    show "\<not> prefix (license_target self s) ?pr \<and> \<not> prefix ?pr (license_target self s)"
      using diverge [of "''src''" "''resources''" ?pd "parts m @ [stem (last s) @ ''.txt'']" "[]"]
      by simp
  qed
  with frame1 have pr_same: "fs_lookup (fs w1) ?pr = fs_lookup (fs w) ?pr" by blast
  then have fls2': "(if path_is_dir (fs w1) ?pr then glob_prefix (fs w1) ?pr ''LICENSE'' else [])
      = fls2"
    by (simp add: fls2_def path_is_dir_def glob_prefix_def)
  have step1: "(if \<not> path_is_dir (fs w) ?pd then return () w
        else copy_license_files self (glob_prefix (fs w) ?pd ''LICENSE'') w) = (Inr (), w1)"
    using run1 by (simp add: fls1_def return_def split: if_splits)
  have step2: "(if \<not> path_is_dir (fs w1) ?pr then return () w1
        else copy_license_files self (glob_prefix (fs w1) ?pr ''LICENSE'') w1)
      = copy_license_files self fls2 w1"
    using fls2' by (auto simp add: return_def split: if_splits)
  have "copy_license_dirs self (paths_licenses E) w = copy_license_files self fls2 w1"
    unfolding paths_licenses_eq copy_license_dirs.simps
    by (simp add: bind_def step1 step2 return_def split: prod.splits sum.splits)
  also have "\<dots> = copy_license_files self (fls1 @ fls2) w"
    by (simp add: copy_license_files_append bind_def run1)
  finally show ?thesis by (simp add: srcs)
qed

lemma copy_licenses_none:
  assumes "license_sources (fs w) E = []"
  shows "copy_licenses E self w = (Inr (), w\<lparr>log := log w @ [Log_info ''Copying licenses...'']\<rparr>)"
proof -
  let ?w0 = "w\<lparr>log := log w @ [Log_info ''Copying licenses...'']\<rparr>"
  from assms have g: "path_is_dir (fs w) (PATH_DIST E) \<longrightarrow>
      glob_prefix (fs w) (PATH_DIST E) ''LICENSE'' = []"
    "path_is_dir (fs w) (PATH_DIST E @ [''resources'']) \<longrightarrow>
      glob_prefix (fs w) (PATH_DIST E @ [''resources'']) ''LICENSE'' = []"
    by (simp_all add: license_sources_def paths_licenses_eq split: if_splits)
  have "copy_license_dirs self (paths_licenses E) ?w0 = (Inr (), ?w0)"
    unfolding paths_licenses_eq copy_license_dirs.simps
    using g by (simp add: bind_def return_def)
  then show ?thesis by (simp add: copy_licenses_def bind_def emit_def)
qed

subsection \<open>Evaluating the sample\<close>

section \<open>Theorems\<close>

text \<open>
  C3. The file name \<open>_package\<close> computes is
  \<open>{repo_name}-{version}-{targets joined by '+'}[-{dist_type}].ankiaddon\<close>: it equals the
  name the specification describes, the suffix \<open>-{dist_type}\<close> is there exactly when the
  distribution type is not \<open>local\<close>, and the two examples of the specification come out
  as \<open>foo-1.2.3-qt5+qt6.ankiaddon\<close> and \<open>foo-1.2.3-qt5+qt6-beta.ankiaddon\<close>.
\<close>

theorem out_name_composition:
  "out_name config version qt_versions disttype
     = spec_name (cfg_repo_name config) version (map name qt_versions) disttype
   \<and> (disttype = ''local'' \<longrightarrow>
        out_name config version qt_versions disttype
          = cfg_repo_name config @ ''-'' @ version @ ''-''
            @ str_join ''+'' (map name qt_versions) @ ''.ankiaddon'')
   \<and> (disttype \<noteq> ''local'' \<longrightarrow>
        out_name config version qt_versions disttype
          = cfg_repo_name config @ ''-'' @ version @ ''-''
            @ str_join ''+'' (map name qt_versions) @ ''-'' @ disttype @ ''.ankiaddon'')
   \<and> out_name \<lparr>cfg_display_name = d, cfg_module_name = m, cfg_repo_name = ''foo''\<rparr> ''1.2.3''
        [QtVersion ''qt5'', QtVersion ''qt6''] ''local'' = ''foo-1.2.3-qt5+qt6.ankiaddon''
   \<and> out_name \<lparr>cfg_display_name = d, cfg_module_name = m, cfg_repo_name = ''foo''\<rparr> ''1.2.3''
        [QtVersion ''qt5'', QtVersion ''qt6''] ''beta'' = ''foo-1.2.3-qt5+qt6-beta.ankiaddon''"
  by (simp add: out_name_def spec_name_def str_join_joined_targets)

theorem out_name_composition_witness:
  "''beta'' \<noteq> ''local'' \<and>
   out_name \<lparr>cfg_display_name = ''Foo'', cfg_module_name = ''foo'', cfg_repo_name = ''foo''\<rparr>
     ''1.2.3'' [QtVersion ''qt5'', QtVersion ''qt6''] ''beta''
   = ''foo-1.2.3-qt5+qt6-beta.ankiaddon''
   \<and> ''local'' = ''local'' \<and>
   out_name \<lparr>cfg_display_name = ''Foo'', cfg_module_name = ''foo'', cfg_repo_name = ''foo''\<rparr>
     ''1.2.3'' [QtVersion ''qt5'', QtVersion ''qt6''] ''local''
   = ''foo-1.2.3-qt5+qt6.ankiaddon''"
  using out_name_composition [of
      "\<lparr>cfg_display_name = ''Foo'', cfg_module_name = ''foo'', cfg_repo_name = ''foo''\<rparr>"
      "''1.2.3''" "[QtVersion ''qt5'', QtVersion ''qt6'']" "''beta''"]
    out_name_composition [of
      "\<lparr>cfg_display_name = ''Foo'', cfg_module_name = ''foo'', cfg_repo_name = ''foo''\<rparr>"
      "''1.2.3''" "[QtVersion ''qt5'', QtVersion ''qt6'']" "''local''"]
  by simp

text \<open>
  C1. Resolving with no explicit version (\<open>version = None\<close>), in a repository whose
  checked-out commit has no identifiable version, so that the version parser answers
  with the provisional token \<open>dev\<close>: when \<open>git status --porcelain\<close> reports changes, the
  builder's version is \<open>dev\<close>; when it reports none, the version is resolved again by
  the rule \<open>current\<close> of the last commit, and that result replaces the token (an empty
  result ends the process).
\<close>

theorem version_dev_rule:
  assumes "git_parse_version E None (fs w) = ''dev''"
  shows "(call_shell E ''git status --porcelain'' (fs w) \<noteq> [] \<longrightarrow>
            init_version E None (fs w) = ''dev''
          \<and> (\<exists>self. init E None cb w = (Inr self, w) \<and> self_version self = ''dev''))
       \<and> (call_shell E ''git status --porcelain'' (fs w) = [] \<longrightarrow>
            init_version E None (fs w) = git_parse_version E (Some ''current'') (fs w)
          \<and> (git_parse_version E (Some ''current'') (fs w) \<noteq> [] \<longrightarrow>
               (\<exists>self. init E None cb w = (Inr self, w)
                  \<and> self_version self = git_parse_version E (Some ''current'') (fs w)))
          \<and> (git_parse_version E (Some ''current'') (fs w) = [] \<longrightarrow>
               fst (init E None cb w) = Inl (SystemExit 1)))"
  using assms
  by (auto simp add: init_version_def init_def Let_def return_def bind_def emit_def raise_def)

theorem version_dev_rule_witness:
  "git_parse_version sample_env None (fs sample_world) = ''dev''
   \<and> call_shell sample_env ''git status --porcelain'' (fs sample_world) = []
   \<and> init_version sample_env None (fs sample_world) = ''1.2.3''
   \<and> git_parse_version (sample_env\<lparr>call_shell := \<lambda>cmd root. '' M aab/builder.py''\<rparr>) None
        (fs sample_world) = ''dev''
   \<and> call_shell (sample_env\<lparr>call_shell := \<lambda>cmd root. '' M aab/builder.py''\<rparr>)
        ''git status --porcelain'' (fs sample_world) \<noteq> []
   \<and> init_version (sample_env\<lparr>call_shell := \<lambda>cmd root. '' M aab/builder.py''\<rparr>) None
        (fs sample_world) = ''dev''"
  using version_dev_rule [of sample_env sample_world None]
    version_dev_rule [of "sample_env\<lparr>call_shell := \<lambda>cmd root. '' M aab/builder.py''\<rparr>"
      sample_world None]
  by (simp add: sample_env_def)

text \<open>
  C2. When the resolution of the version ends with the empty string, after the
  fallback, a build is over before it began: \<open>__init__\<close> logs the error and raises
  \<open>SystemExit(1)\<close>, the file system is as it was, and the log holds nothing but the error
  message: no deletion of the working area, no purge, no export, no augmentation and no
  packaging.
\<close>

theorem failed_resolution_aborts:
  assumes "init_version E version (fs w) = []"
  shows "make_and_build E version cb qt_versions disttype pyenv w
           = (Inl (SystemExit 1),
              w\<lparr>log := log w @ [Log_error ''Error: Version could not be determined through Git'']\<rparr>)
       \<and> fs (snd (make_and_build E version cb qt_versions disttype pyenv w)) = fs w"
  using assms
  by (simp add: make_and_build_def bind_def init_def emit_def raise_def)

theorem failed_resolution_aborts_witness:
  "init_version (sample_env\<lparr>git_parse_version := \<lambda>v root. []\<rparr>) None (fs sample_world) = []
   \<and> make_and_build (sample_env\<lparr>git_parse_version := \<lambda>v root. []\<rparr>) None None
        [QtVersion ''qt6''] ''local'' None sample_world
      = (Inl (SystemExit 1),
         \<lparr>fs = Dir [(''repo'', Dir [(''build'', Dir [])])],
          log = [Log_error ''Error: Version could not be determined through Git'']\<rparr>)"
  using failed_resolution_aborts [of "sample_env\<lparr>git_parse_version := \<lambda>v root. []\<rparr>" None
      sample_world None "[QtVersion ''qt6'']" "''local''" None]
  by (simp add: sample_env_def sample_world_def init_version_def)



text \<open>
  C9. Every build begins with the steps of the preparation, and nothing else runs when
  one of them fails: after the first message, the working area is deleted, only if it
  exists; the compiled files are purged from the repository, by \<open>purge\<close> with the
  three patterns and the recursive flag; the working area is created; and the tree is
  exported into it. \<open>create_dist\<close> is the run of these steps, for every run. When it
  returns, the purge was applied to a file system without the working area (the one the
  deletion left, or the initial one when there was no working area), the creation to
  the one the purge left, and the export to the one the creation left, in which the
  working area is an empty directory. When there is no working area, a failure of the
  purge is the failure of \<open>create_dist\<close>: the purge does run. (When the deletion
  itself raises, the exception propagates and the purge is not reached.) The sample
  runs start with the working area of an earlier build and a compiled file, and
  without either.
\<close>

theorem build_cleans_first:
  "build E self qt_versions disttype pyenv w
     = (case run_steps E self
               (always [Log_info ([CHR 0x0A] @ ''--- Building '' @ cfg_display_name (self_config self)
                          @ '' '' @ self_version self @ '' for '' @ disttype @ '' ---''
                          @ [CHR 0x0A])]
                # preparation_steps E self) w of
          (Inl e, w1) \<Rightarrow> (Inl e, w1)
        | (Inr u, w1) \<Rightarrow>
            bind (build_dist E self qt_versions disttype pyenv)
              (\<lambda>_. package_dist E self qt_versions disttype) w1)
   \<and> create_dist E self v = run_steps E self (preparation_steps E self) v
   \<and> (\<forall>v1. create_dist E self v = (Inr (), v1) \<longrightarrow>
         (\<exists>root1 root2 root3.
             (if path_exists (fs v) (PATH_DIST E) then rmtree (PATH_DIST E) (fs v) = Inr root1
              else root1 = fs v)
           \<and> \<not> path_exists root1 (PATH_DIST E)
           \<and> purge E ''.'' [''*.pyc'', ''*.pyo'', ''__pycache__''] True root1 = Inr root2
           \<and> mkdir_parents (PATH_DIST E) root2 = Inr root3
           \<and> fs_lookup root3 (PATH_DIST E) = Some (Dir [])
           \<and> git_archive E (self_version self) (PATH_DIST E) root3 = Inr (fs v1)
           \<and> log v1 = log v
               @ [Log_info (''Preparing source tree for '' @ cfg_display_name (self_config self)
                            @ '' '' @ self_version self @ '' ...''),
                  Log_info ''Cleaning repository...'']
               @ (if path_exists (fs v) (PATH_DIST E) then [Rmtree (PATH_DIST E)] else [])
               @ [Purge ''.'' [''*.pyc'', ''*.pyo'', ''__pycache__''] True,
                  Mkdir (PATH_DIST E),
                  Git_archive (self_version self) (PATH_DIST E)]))
   \<and> (\<forall>e. \<not> path_exists (fs v) (PATH_DIST E) \<longrightarrow>
            purge E ''.'' [''*.pyc'', ''*.pyo'', ''__pycache__''] True (fs v) = Inl e \<longrightarrow>
            create_dist E self v
              = (Inl e,
                 v\<lparr>log := log v
                     @ [Log_info (''Preparing source tree for ''
                          @ cfg_display_name (self_config self) @ '' '' @ self_version self
                          @ '' ...''),
                        Log_info ''Cleaning repository...'',
                        Purge ''.'' [''*.pyc'', ''*.pyo'', ''__pycache__''] True]\<rparr>))"
proof -
  let ?b = "Log_info ([CHR 0x0A] @ ''--- Building '' @ cfg_display_name (self_config self)
      @ '' '' @ self_version self @ '' for '' @ disttype @ '' ---'' @ [CHR 0x0A])"
  have steps: "create_dist E self v = run_steps E self (preparation_steps E self) v" for v
    by (simp add: create_dist_steps)
  have "build E self qt_versions disttype pyenv w
      = bind (create_dist E self)
          (\<lambda>_. bind (build_dist E self qt_versions disttype pyenv)
             (\<lambda>_. package_dist E self qt_versions disttype))
          (w\<lparr>log := log w @ [?b]\<rparr>)"
    by (simp add: build_def bind_def emit_def)
  then have start: "build E self qt_versions disttype pyenv w
     = (case run_steps E self (always [?b] # preparation_steps E self) w of
          (Inl e, w1) \<Rightarrow> (Inl e, w1)
        | (Inr u, w1) \<Rightarrow>
            bind (build_dist E self qt_versions disttype pyenv)
              (\<lambda>_. package_dist E self qt_versions disttype) w1)"
    by (simp add: steps always_def bind_def split: prod.splits sum.splits)
  have chain: "\<forall>v1. create_dist E self v = (Inr (), v1) \<longrightarrow>
         (\<exists>root1 root2 root3.
             (if path_exists (fs v) (PATH_DIST E) then rmtree (PATH_DIST E) (fs v) = Inr root1
              else root1 = fs v)
           \<and> \<not> path_exists root1 (PATH_DIST E)
           \<and> purge E ''.'' [''*.pyc'', ''*.pyo'', ''__pycache__''] True root1 = Inr root2
           \<and> mkdir_parents (PATH_DIST E) root2 = Inr root3
           \<and> fs_lookup root3 (PATH_DIST E) = Some (Dir [])
           \<and> git_archive E (self_version self) (PATH_DIST E) root3 = Inr (fs v1)
           \<and> log v1 = log v
               @ [Log_info (''Preparing source tree for '' @ cfg_display_name (self_config self)
                            @ '' '' @ self_version self @ '' ...''),
                  Log_info ''Cleaning repository...'']
               @ (if path_exists (fs v) (PATH_DIST E) then [Rmtree (PATH_DIST E)] else [])
               @ [Purge ''.'' [''*.pyc'', ''*.pyo'', ''__pycache__''] True,
                  Mkdir (PATH_DIST E),
                  Git_archive (self_version self) (PATH_DIST E)])"
    by (intro allI impI) (rule create_dist_chain)
  have fail: "\<forall>e. \<not> path_exists (fs v) (PATH_DIST E) \<longrightarrow>
            purge E ''.'' [''*.pyc'', ''*.pyo'', ''__pycache__''] True (fs v) = Inl e \<longrightarrow>
            create_dist E self v
              = (Inl e,
                 v\<lparr>log := log v
                     @ [Log_info (''Preparing source tree for ''
                          @ cfg_display_name (self_config self) @ '' '' @ self_version self
                          @ '' ...''),
                        Log_info ''Cleaning repository...'',
                        Purge ''.'' [''*.pyc'', ''*.pyo'', ''__pycache__''] True]\<rparr>)"
    by (simp add: steps run_steps_preparation Let_def always_def)
  from start steps chain fail show ?thesis by (intro conjI)
qed

theorem build_cleans_first_witness:
  "create_dist sample_env sample_builder sample_stale
     = (Inr (),
        \<lparr>fs = Dir [(''repo'', Dir [(''build'', Dir [(''dist'', sample_dist)])])],
         log = [Log_info ''Preparing source tree for Foo 1.2.3 ...'',
                Log_info ''Cleaning repository...'',
                Rmtree [''repo'', ''build'', ''dist''],
                Purge ''.'' [''*.pyc'', ''*.pyo'', ''__pycache__''] True,
                Mkdir [''repo'', ''build'', ''dist''],
                Git_archive ''1.2.3'' [''repo'', ''build'', ''dist'']]\<rparr>)
   \<and> rmtree [''repo'', ''build'', ''dist''] (fs sample_stale)
       = Inr (Dir [(''repo'', Dir [(''foo.pyc'', File rw (Bytes ''compiled'')),
                                    (''build'', Dir [])])])
   \<and> purge sample_env ''.'' [''*.pyc'', ''*.pyo'', ''__pycache__''] True
         (Dir [(''repo'', Dir [(''foo.pyc'', File rw (Bytes ''compiled'')), (''build'', Dir [])])])
       = Inr (Dir [(''repo'', Dir [(''build'', Dir [])])])
   \<and> mkdir_parents [''repo'', ''build'', ''dist''] (Dir [(''repo'', Dir [(''build'', Dir [])])])
       = Inr (Dir [(''repo'', Dir [(''build'', Dir [(''dist'', Dir [])])])])
   \<and> create_dist sample_env sample_builder sample_world
     = (Inr (),
        \<lparr>fs = Dir [(''repo'', Dir [(''build'', Dir [(''dist'', sample_dist)])])],
         log = [Log_info ''Preparing source tree for Foo 1.2.3 ...'',
                Log_info ''Cleaning repository...'',
                Purge ''.'' [''*.pyc'', ''*.pyo'', ''__pycache__''] True,
                Mkdir [''repo'', ''build'', ''dist''],
                Git_archive ''1.2.3'' [''repo'', ''build'', ''dist'']]\<rparr>)
   \<and> create_dist (sample_env\<lparr>purge := (\<lambda>d ps rec root. Inl (External ''purge''))\<rparr>)
         sample_builder sample_world
     = (Inl (External ''purge''),
        \<lparr>fs = Dir [(''repo'', Dir [(''build'', Dir [])])],
         log = [Log_info ''Preparing source tree for Foo 1.2.3 ...'',
                Log_info ''Cleaning repository...'',
                Purge ''.'' [''*.pyc'', ''*.pyo'', ''__pycache__''] True]\<rparr>)
   \<and> fst (build sample_env sample_builder [QtVersion ''qt6''] ''local'' None sample_stale)
       = Inr [''repo'', ''build'', ''foo-1.2.3-qt6.ankiaddon'']
   \<and> take 7 (log (snd (build sample_env sample_builder [QtVersion ''qt6''] ''local'' None
                          sample_stale)))
       = [Log_info ([CHR 0x0A] @ ''--- Building Foo 1.2.3 for local ---'' @ [CHR 0x0A]),
          Log_info ''Preparing source tree for Foo 1.2.3 ...'',
          Log_info ''Cleaning repository...'',
          Rmtree [''repo'', ''build'', ''dist''],
          Purge ''.'' [''*.pyc'', ''*.pyo'', ''__pycache__''] True,
          Mkdir [''repo'', ''build'', ''dist''],
          Git_archive ''1.2.3'' [''repo'', ''build'', ''dist'']]"
proof -
  let ?bad = "sample_env\<lparr>purge := (\<lambda>d ps rec root. Inl (External ''purge''))\<rparr>"
  note th = build_cleans_first [of sample_env sample_builder "[QtVersion ''qt6'']" "''local''" None
      sample_stale]
  have a: "create_dist sample_env sample_builder sample_stale
     = (Inr (),
        \<lparr>fs = Dir [(''repo'', Dir [(''build'', Dir [(''dist'', sample_dist)])])],
         log = [Log_info ''Preparing source tree for Foo 1.2.3 ...'',
                Log_info ''Cleaning repository...'',
                Rmtree [''repo'', ''build'', ''dist''],
                Purge ''.'' [''*.pyc'', ''*.pyo'', ''__pycache__''] True,
                Mkdir [''repo'', ''build'', ''dist''],
                Git_archive ''1.2.3'' [''repo'', ''build'', ''dist'']]\<rparr>)"
    using th [of sample_stale, THEN conjunct2, THEN conjunct1]
    by (simp add: preparation_steps_def cleaning_steps_def always_def provided_def
          sample_env_def sample_builder_def sample_config_def sample_stale_def
          path_exists_def rmtree_def)
  have b: "rmtree [''repo'', ''build'', ''dist''] (fs sample_stale)
       = Inr (Dir [(''repo'', Dir [(''foo.pyc'', File rw (Bytes ''compiled'')),
                                    (''build'', Dir [])])])"
    by (simp add: rmtree_def sample_stale_def)
  have c: "purge sample_env ''.'' [''*.pyc'', ''*.pyo'', ''__pycache__''] True
         (Dir [(''repo'', Dir [(''foo.pyc'', File rw (Bytes ''compiled'')), (''build'', Dir [])])])
       = Inr (Dir [(''repo'', Dir [(''build'', Dir [])])])"
    by (simp add: sample_env_def)
  have d: "mkdir_parents [''repo'', ''build'', ''dist''] (Dir [(''repo'', Dir [(''build'', Dir [])])])
       = Inr (Dir [(''repo'', Dir [(''build'', Dir [(''dist'', Dir [])])])])"
    by simp
  have e: "create_dist sample_env sample_builder sample_world
     = (Inr (),
        \<lparr>fs = Dir [(''repo'', Dir [(''build'', Dir [(''dist'', sample_dist)])])],
         log = [Log_info ''Preparing source tree for Foo 1.2.3 ...'',
                Log_info ''Cleaning repository...'',
                Purge ''.'' [''*.pyc'', ''*.pyo'', ''__pycache__''] True,
                Mkdir [''repo'', ''build'', ''dist''],
                Git_archive ''1.2.3'' [''repo'', ''build'', ''dist'']]\<rparr>)"
    using th [of sample_world, THEN conjunct2, THEN conjunct1]
    by (simp add: preparation_steps_def cleaning_steps_def always_def provided_def
          sample_env_def sample_builder_def sample_config_def sample_world_def
          path_exists_def rmtree_def)
  have ne: "\<not> path_exists (fs sample_world) (PATH_DIST ?bad)"
    by (simp add: path_exists_def sample_world_def sample_env_def)
  have pf: "purge ?bad ''.'' [''*.pyc'', ''*.pyo'', ''__pycache__''] True (fs sample_world)
      = Inl (External ''purge'')"
    by simp
  from build_cleans_first [of ?bad sample_builder "[]" "''local''" None sample_world sample_world,
      THEN conjunct2, THEN conjunct2, THEN conjunct2, rule_format, OF ne pf]
  have f: "create_dist ?bad sample_builder sample_world
     = (Inl (External ''purge''),
        \<lparr>fs = Dir [(''repo'', Dir [(''build'', Dir [])])],
         log = [Log_info ''Preparing source tree for Foo 1.2.3 ...'',
                Log_info ''Cleaning repository...'',
                Purge ''.'' [''*.pyc'', ''*.pyo'', ''__pycache__''] True]\<rparr>)"
    by (simp add: sample_world_def sample_builder_def sample_config_def)
  have g: "fst (build sample_env sample_builder [QtVersion ''qt6''] ''local'' None sample_stale)
       = Inr [''repo'', ''build'', ''foo-1.2.3-qt6.ankiaddon'']
   \<and> take 7 (log (snd (build sample_env sample_builder [QtVersion ''qt6''] ''local'' None
                          sample_stale)))
       = [Log_info ([CHR 0x0A] @ ''--- Building Foo 1.2.3 for local ---'' @ [CHR 0x0A]),
          Log_info ''Preparing source tree for Foo 1.2.3 ...'',
          Log_info ''Cleaning repository...'',
          Rmtree [''repo'', ''build'', ''dist''],
          Purge ''.'' [''*.pyc'', ''*.pyo'', ''__pycache__''] True,
          Mkdir [''repo'', ''build'', ''dist''],
          Git_archive ''1.2.3'' [''repo'', ''build'', ''dist'']]"
    using th [THEN conjunct1]
    by (simp add: preparation_steps_def cleaning_steps_def always_def provided_def
          sample_env_def sample_builder_def sample_config_def sample_stale_def sample_dist_def
          path_exists_def rmtree_def
          build_dist_def copy_licenses_def copy_changelog_def
          copy_optional_icons_def write_manifest_def paths_licenses_def path_changelog_def
          path_optional_icons_def bind_def emit_def effect_def return_def only_if_def Let_def
          path_div_def parts_def path_is_dir_def
          glob_prefix_def copyfile_def shutil_copy_def copymode_def write_file_def stem_def
          package_dist_def package_def out_name_def zip_tree_def os_walk_str_def path_str_def
          os_path_join_def zip_write_def dirnames_def filenames_def unlink_def)
  from a b c d e f g show ?thesis by (intro conjI) simp_all
qed

text \<open>
  C4. Packaging a module subtree: when the output file can be opened (its directory
  exists and the output path is no directory, and lies outside the subtree), the
  subtree is a well-formed tree at a path of plain components, and its files are
  readable, \<open>_package\<close> returns the output path, and the archive there holds exactly the
  entries \<open>map entry_of (rel_files n)\<close>: their names are pairwise distinct, and
  \<open>rel_files n\<close> lists a path \<open>r\<close> with a content exactly when \<open>r\<close> is not empty and the
  subtree's root followed by \<open>r\<close> is a file with that content. An entry's name is \<open>r\<close>
  joined by slashes, relative to the subtree's root: the files \<open>a.py\<close> and \<open>sub/b.py\<close> of
  the sample give the entries \<open>a.py\<close> and \<open>sub/b.py\<close>.
\<close>

theorem archive_entries:
  assumes "out_path = path_div (path_div (PATH_ROOT E) ''build'')
        (out_name (self_config self) (self_version self) qt_versions disttype)"
    and "out_path \<noteq> []" "path_is_dir (fs w) (butlast out_path)" "\<not> path_is_dir (fs w) out_path"
    and "to_zip = self_path_dist_module self" "to_zip \<noteq> []" "list_all plain to_zip"
    and "\<not> prefix out_path to_zip" "\<not> prefix to_zip out_path"
    and "fs_lookup (fs w) to_zip = Some n" "wf_node n" "readable n"
  shows "\<exists>w'. package E self qt_versions disttype w = (Inr out_path, w')
     \<and> fs_lookup (fs w') out_path = Some (File rw (Zip (map entry_of (rel_files n))))
     \<and> distinct (map fst (map entry_of (rel_files n)))
     \<and> (\<forall>r b c. (r, b, c) \<in> set (rel_files n)
           \<longleftrightarrow> r \<noteq> [] \<and> fs_lookup (fs w) (to_zip @ r) = Some (File b c))"
proof -
  from assms(12) have all: "list_all is_readable (rel_files n)" by (simp add: readable_all)
  from package_run [OF assms(1-11)] obtain w' where
    "package E self qt_versions disttype w
       = (map_sum id (\<lambda>_. out_path) (outcome (rel_files n)), w')"
    "fs_lookup (fs w') out_path = Some (File rw (Zip (map entry_of (written (rel_files n)))))"
    by blast
  with all have "package E self qt_versions disttype w = (Inr out_path, w')"
    "fs_lookup (fs w') out_path = Some (File rw (Zip (map entry_of (rel_files n))))"
    by (simp_all add: outcome_all written_all)
  moreover have "\<forall>r b c. (r, b, c) \<in> set (rel_files n)
           \<longleftrightarrow> r \<noteq> [] \<and> fs_lookup (fs w) (to_zip @ r) = Some (File b c)"
    using rel_files_mem [OF assms(11)] assms(10) by (simp add: fs_lookup_append)
  ultimately show ?thesis using distinct_entry_names [OF assms(11)] by blast
qed

theorem archive_entries_witness:
  "[''repo'', ''build'', ''foo-1.2.3-qt5+qt6.ankiaddon'']
     = path_div (path_div (PATH_ROOT sample_env) ''build'')
         (out_name (self_config sample_builder) (self_version sample_builder)
            [QtVersion ''qt5'', QtVersion ''qt6''] ''local'')
   \<and> path_is_dir (fs sample_exported) [''repo'', ''build'']
   \<and> \<not> path_is_dir (fs sample_exported) [''repo'', ''build'', ''foo-1.2.3-qt5+qt6.ankiaddon'']
   \<and> list_all plain [''repo'', ''build'', ''dist'', ''src'', ''foo'']
   \<and> fs_lookup (fs sample_exported) [''repo'', ''build'', ''dist'', ''src'', ''foo'']
       = Some (Dir [(''a.py'', File rw (Bytes ''a'')),
                    (''sub'', Dir [(''b.py'', File rw (Bytes ''b''))])])
   \<and> wf_node (Dir [(''a.py'', File rw (Bytes ''a'')),
                    (''sub'', Dir [(''b.py'', File rw (Bytes ''b''))])])
   \<and> readable (Dir [(''a.py'', File rw (Bytes ''a'')),
                     (''sub'', Dir [(''b.py'', File rw (Bytes ''b''))])])
   \<and> (\<exists>w'. package sample_env sample_builder [QtVersion ''qt5'', QtVersion ''qt6''] ''local''
               sample_exported
             = (Inr [''repo'', ''build'', ''foo-1.2.3-qt5+qt6.ankiaddon''], w')
           \<and> fs_lookup (fs w') [''repo'', ''build'', ''foo-1.2.3-qt5+qt6.ankiaddon'']
               = Some (File rw (Zip [(''a.py'', Bytes ''a''), (''sub/b.py'', Bytes ''b'')])))"
proof -
  let ?out = "[''repo'', ''build'', ''foo-1.2.3-qt5+qt6.ankiaddon'']"
  let ?zip = "[''repo'', ''build'', ''dist'', ''src'', ''foo'']"
  let ?n = "Dir [(''a.py'', File rw (Bytes ''a'')),
                 (''sub'', Dir [(''b.py'', File rw (Bytes ''b''))])]"
  have h1: "?out = path_div (path_div (PATH_ROOT sample_env) ''build'')
         (out_name (self_config sample_builder) (self_version sample_builder)
            [QtVersion ''qt5'', QtVersion ''qt6''] ''local'')"
    by (simp add: sample_env_def sample_builder_def sample_config_def out_name_def path_div_def
        parts_def)
  have h2: "?out \<noteq> []" by simp
  have h3: "path_is_dir (fs sample_exported) (butlast ?out)"
    by (simp add: sample_exported_def path_is_dir_def)
  have h4: "\<not> path_is_dir (fs sample_exported) ?out"
    by (simp add: sample_exported_def path_is_dir_def sample_dist_def)
  have h5: "?zip = self_path_dist_module sample_builder" by (simp add: sample_builder_def)
  have h6: "?zip \<noteq> []" by simp
  have h7: "list_all plain ?zip" by (simp add: plain_def)
  have h8: "\<not> prefix ?out ?zip" "\<not> prefix ?zip ?out" by simp_all
  have h9: "fs_lookup (fs sample_exported) ?zip = Some ?n"
    by (simp add: sample_exported_def sample_dist_def)
  have h10: "wf_node ?n" by (simp add: plain_def)
  have h11: "readable ?n" by simp
  have ents: "map entry_of (rel_files ?n) = [(''a.py'', Bytes ''a''), (''sub/b.py'', Bytes ''b'')]"
    by (simp add: entry_of_def)
  have h3': "path_is_dir (fs sample_exported) [''repo'', ''build'']"
    using h3 by simp
  from archive_entries [OF h1 h2 h3 h4 h5 h6 h7 h8 h9 h10 h11]
  have ex: "\<exists>w'. package sample_env sample_builder [QtVersion ''qt5'', QtVersion ''qt6''] ''local''
               sample_exported = (Inr ?out, w')
           \<and> fs_lookup (fs w') ?out
               = Some (File rw (Zip [(''a.py'', Bytes ''a''), (''sub/b.py'', Bytes ''b'')]))"
    unfolding ents by blast
  from h1 h3' h4 h7 h9 h10 h11 ex show ?thesis by (intro conjI)
qed

text \<open>
  C5. When a file is at the computed output path, \<open>_package\<close> unlinks it before it opens
  the new archive, and returns; the file left at the output path holds the entries of
  the present subtree and nothing of the old content, and the whole file system is the
  one the same run leaves when the old file was not there.
\<close>

theorem rerun_overwrites:
  assumes "out_path = path_div (path_div (PATH_ROOT E) ''build'')
        (out_name (self_config self) (self_version self) qt_versions disttype)"
    and "out_path \<noteq> []" "path_is_dir (fs w) (butlast out_path)"
    and "fs_lookup (fs w) out_path = Some (File b old)"
    and "to_zip = self_path_dist_module self" "to_zip \<noteq> []" "list_all plain to_zip"
    and "\<not> prefix out_path to_zip" "\<not> prefix to_zip out_path"
    and "fs_lookup (fs w) to_zip = Some n" "wf_node n" "readable n"
  shows "\<exists>w'. package E self qt_versions disttype w = (Inr out_path, w')
     \<and> log w' = log w @ [Log_info ''Packaging add-on...'', Unlink out_path, Zip_open out_path]
          @ map (write_under to_zip []) (rel_files n)
          @ [Zip_close out_path,
             Log_info (''Package saved as ''
               @ out_name (self_config self) (self_version self) qt_versions disttype),
             Log_info ''Done.'']
     \<and> fs_lookup (fs w') out_path = Some (File rw (Zip (map entry_of (rel_files n))))
     \<and> fs w' = fs (snd (package E self qt_versions disttype
                            (w\<lparr>fs := fs_remove out_path (fs w)\<rparr>)))"
proof -
  from assms(12) have all: "list_all is_readable (rel_files n)" by (simp add: readable_all)
  from assms(4) have nd: "\<not> path_is_dir (fs w) out_path" and ex: "path_exists (fs w) out_path"
    by (simp_all add: path_is_dir_def path_exists_def)
  from package_run [OF assms(1-3) nd assms(5-11)] obtain w' where
    w': "package E self qt_versions disttype w
       = (map_sum id (\<lambda>_. out_path) (outcome (rel_files n)), w')"
    "fs w' = fs_store out_path (File rw (Zip (map entry_of (written (rel_files n)))))
                 (fs_store out_path (File rw (Zip []))
                    (if path_exists (fs w) out_path then fs_remove out_path (fs w) else fs w))"
    "fs_lookup (fs w') out_path = Some (File rw (Zip (map entry_of (written (rel_files n)))))"
    "log w' = log w @ [Log_info ''Packaging add-on...'']
          @ (if path_exists (fs w) out_path then [Unlink out_path] else [])
          @ [Zip_open out_path]
          @ map (write_under to_zip []) (attempted (rel_files n))
          @ [Zip_close out_path]
          @ (if list_all is_readable (rel_files n)
             then [Log_info (''Package saved as ''
                     @ out_name (self_config self) (self_version self) qt_versions disttype),
                   Log_info ''Done.'']
             else [])"
    by blast
  let ?w2 = "w\<lparr>fs := fs_remove out_path (fs w)\<rparr>"
  have d2: "path_is_dir (fs ?w2) (butlast out_path)"
    using fs_remove_lookup_same(2) [OF assms(2,3)] by simp
  have gone: "fs_lookup (fs ?w2) out_path = None"
    using fs_remove_lookup_same(1) [OF assms(2,3)] by simp
  then have nd2: "\<not> path_is_dir (fs ?w2) out_path" and nex: "\<not> path_exists (fs ?w2) out_path"
    by (simp_all add: path_is_dir_def path_exists_def)
  have n2: "fs_lookup (fs ?w2) to_zip = Some n"
    using fs_remove_frame [OF assms(8,9)] assms(10) by simp
  from package_run [OF assms(1,2) d2 nd2 assms(5-9) n2 assms(11)] obtain w2' where
    w2': "package E self qt_versions disttype ?w2
       = (map_sum id (\<lambda>_. out_path) (outcome (rel_files n)), w2')"
    "fs w2' = fs_store out_path (File rw (Zip (map entry_of (written (rel_files n)))))
                 (fs_store out_path (File rw (Zip []))
                    (if path_exists (fs ?w2) out_path then fs_remove out_path (fs ?w2)
                     else fs ?w2))"
    by blast
  have same: "fs w' = fs (snd (package E self qt_versions disttype ?w2))"
    using w'(2) w2' ex nex by simp
  have run: "package E self qt_versions disttype w = (Inr out_path, w')"
    using w'(1) all by (simp add: outcome_all)
  have look: "fs_lookup (fs w') out_path = Some (File rw (Zip (map entry_of (rel_files n))))"
    using w'(3) all by (simp add: written_all)
  have lg: "log w' = log w @ [Log_info ''Packaging add-on...'', Unlink out_path, Zip_open out_path]
          @ map (write_under to_zip []) (rel_files n)
          @ [Zip_close out_path,
             Log_info (''Package saved as ''
               @ out_name (self_config self) (self_version self) qt_versions disttype),
             Log_info ''Done.'']"
    using w'(4) all ex by (simp add: attempted_all)
  from run lg look same show ?thesis by blast
qed

theorem rerun_overwrites_witness:
  "[''repo'', ''build'', ''foo-1.2.3-qt6.ankiaddon'']
     = path_div (path_div (PATH_ROOT sample_env) ''build'')
         (out_name (self_config sample_builder) (self_version sample_builder)
            [QtVersion ''qt6''] ''local'')
   \<and> path_is_dir (fs sample_rebuilt) [''repo'', ''build'']
   \<and> fs_lookup (fs sample_rebuilt) [''repo'', ''build'', ''foo-1.2.3-qt6.ankiaddon'']
       = Some (File rw (Zip [(''old.py'', Bytes ''old'')]))
   \<and> list_all plain [''repo'', ''build'', ''dist'', ''src'', ''foo'']
   \<and> fs_lookup (fs sample_rebuilt) [''repo'', ''build'', ''dist'', ''src'', ''foo'']
       = Some (Dir [(''a.py'', File rw (Bytes ''a'')),
                    (''sub'', Dir [(''b.py'', File rw (Bytes ''b''))])])
   \<and> wf_node (Dir [(''a.py'', File rw (Bytes ''a'')),
                    (''sub'', Dir [(''b.py'', File rw (Bytes ''b''))])])
   \<and> readable (Dir [(''a.py'', File rw (Bytes ''a'')),
                     (''sub'', Dir [(''b.py'', File rw (Bytes ''b''))])])
   \<and> (\<exists>w'. package sample_env sample_builder [QtVersion ''qt6''] ''local'' sample_rebuilt
             = (Inr [''repo'', ''build'', ''foo-1.2.3-qt6.ankiaddon''], w')
           \<and> fs_lookup (fs w') [''repo'', ''build'', ''foo-1.2.3-qt6.ankiaddon'']
               = Some (File rw (Zip [(''a.py'', Bytes ''a''), (''sub/b.py'', Bytes ''b'')])))"
proof -
  let ?out = "[''repo'', ''build'', ''foo-1.2.3-qt6.ankiaddon'']"
  let ?zip = "[''repo'', ''build'', ''dist'', ''src'', ''foo'']"
  let ?n = "Dir [(''a.py'', File rw (Bytes ''a'')),
                 (''sub'', Dir [(''b.py'', File rw (Bytes ''b''))])]"
  have h1: "?out = path_div (path_div (PATH_ROOT sample_env) ''build'')
         (out_name (self_config sample_builder) (self_version sample_builder)
            [QtVersion ''qt6''] ''local'')"
    by (simp add: sample_env_def sample_builder_def sample_config_def out_name_def path_div_def
        parts_def)
  have h2: "?out \<noteq> []" by simp
  have h3: "path_is_dir (fs sample_rebuilt) (butlast ?out)"
    by (simp add: sample_rebuilt_def path_is_dir_def)
  have h3': "path_is_dir (fs sample_rebuilt) [''repo'', ''build'']"
    using h3 by simp
  have h4: "fs_lookup (fs sample_rebuilt) ?out = Some (File rw (Zip [(''old.py'', Bytes ''old'')]))"
    by (simp add: sample_rebuilt_def)
  have h5: "?zip = self_path_dist_module sample_builder" by (simp add: sample_builder_def)
  have h6: "?zip \<noteq> []" by simp
  have h7: "list_all plain ?zip" by (simp add: plain_def)
  have h8: "\<not> prefix ?out ?zip" "\<not> prefix ?zip ?out" by simp_all
  have h9: "fs_lookup (fs sample_rebuilt) ?zip = Some ?n"
    by (simp add: sample_rebuilt_def sample_dist_def)
  have h10: "wf_node ?n" by (simp add: plain_def)
  have h11: "readable ?n" by simp
  have ents: "map entry_of (rel_files ?n) = [(''a.py'', Bytes ''a''), (''sub/b.py'', Bytes ''b'')]"
    by (simp add: entry_of_def)
  from rerun_overwrites [OF h1 h2 h3 h4 h5 h6 h7 h8 h9 h10 h11]
  have ex: "\<exists>w'. package sample_env sample_builder [QtVersion ''qt6''] ''local''
               sample_rebuilt = (Inr ?out, w')
           \<and> fs_lookup (fs w') ?out
               = Some (File rw (Zip [(''a.py'', Bytes ''a''), (''sub/b.py'', Bytes ''b'')]))"
    unfolding ents by blast
  from h1 h3' h4 h7 h9 h10 h11 ex show ?thesis by (intro conjI)
qed

text \<open>
  C10. For the empty list of targets and the distribution type \<open>local\<close> the file name is
  \<open>{repo_name}-{version}-.ankiaddon\<close>, the hyphen before the empty segment kept, and
  packaging succeeds as for any other list: it returns the output path of that name,
  where the archive of the subtree is.
\<close>

theorem empty_targets_name:
  assumes "out_path = path_div (path_div (PATH_ROOT E) ''build'')
        (cfg_repo_name (self_config self) @ ''-'' @ self_version self @ ''-.ankiaddon'')"
    and "out_path \<noteq> []" "path_is_dir (fs w) (butlast out_path)" "\<not> path_is_dir (fs w) out_path"
    and "to_zip = self_path_dist_module self" "to_zip \<noteq> []" "list_all plain to_zip"
    and "\<not> prefix out_path to_zip" "\<not> prefix to_zip out_path"
    and "fs_lookup (fs w) to_zip = Some n" "wf_node n" "readable n"
  shows "out_name (self_config self) (self_version self) [] ''local''
       = cfg_repo_name (self_config self) @ ''-'' @ self_version self @ ''-.ankiaddon''
     \<and> (\<exists>w'. package E self [] ''local'' w = (Inr out_path, w')
           \<and> fs_lookup (fs w') out_path = Some (File rw (Zip (map entry_of (rel_files n)))))"
proof -
  have nm: "out_name (self_config self) (self_version self) [] ''local''
       = cfg_repo_name (self_config self) @ ''-'' @ self_version self @ ''-.ankiaddon''"
    by (simp add: out_name_def)
  from assms(12) have all: "list_all is_readable (rel_files n)" by (simp add: readable_all)
  have out: "out_path = path_div (path_div (PATH_ROOT E) ''build'')
        (out_name (self_config self) (self_version self) [] ''local'')"
    using assms(1) nm by simp
  from package_run [OF out assms(2-11)] obtain w' where
    "package E self [] ''local'' w = (map_sum id (\<lambda>_. out_path) (outcome (rel_files n)), w')"
    "fs_lookup (fs w') out_path = Some (File rw (Zip (map entry_of (written (rel_files n)))))"
    by blast
  with all have r: "package E self [] ''local'' w = (Inr out_path, w')"
    "fs_lookup (fs w') out_path = Some (File rw (Zip (map entry_of (rel_files n))))"
    by (simp_all add: outcome_all written_all)
  with nm show ?thesis by blast
qed

theorem empty_targets_name_witness:
  "[''repo'', ''build'', ''foo-1.2.3-.ankiaddon'']
     = path_div (path_div (PATH_ROOT sample_env) ''build'')
         (cfg_repo_name (self_config sample_builder) @ ''-'' @ self_version sample_builder
          @ ''-.ankiaddon'')
   \<and> path_is_dir (fs sample_exported) [''repo'', ''build'']
   \<and> \<not> path_is_dir (fs sample_exported) [''repo'', ''build'', ''foo-1.2.3-.ankiaddon'']
   \<and> list_all plain [''repo'', ''build'', ''dist'', ''src'', ''foo'']
   \<and> fs_lookup (fs sample_exported) [''repo'', ''build'', ''dist'', ''src'', ''foo'']
       = Some (Dir [(''a.py'', File rw (Bytes ''a'')),
                    (''sub'', Dir [(''b.py'', File rw (Bytes ''b''))])])
   \<and> wf_node (Dir [(''a.py'', File rw (Bytes ''a'')),
                    (''sub'', Dir [(''b.py'', File rw (Bytes ''b''))])])
   \<and> readable (Dir [(''a.py'', File rw (Bytes ''a'')),
                     (''sub'', Dir [(''b.py'', File rw (Bytes ''b''))])])
   \<and> out_name sample_config ''1.2.3'' [] ''local'' = ''foo-1.2.3-.ankiaddon''
   \<and> (\<exists>w'. package sample_env sample_builder [] ''local'' sample_exported
             = (Inr [''repo'', ''build'', ''foo-1.2.3-.ankiaddon''], w'))"
proof -
  let ?out = "[''repo'', ''build'', ''foo-1.2.3-.ankiaddon'']"
  let ?zip = "[''repo'', ''build'', ''dist'', ''src'', ''foo'']"
  let ?n = "Dir [(''a.py'', File rw (Bytes ''a'')),
                 (''sub'', Dir [(''b.py'', File rw (Bytes ''b''))])]"
  have h1: "?out = path_div (path_div (PATH_ROOT sample_env) ''build'')
         (cfg_repo_name (self_config sample_builder) @ ''-'' @ self_version sample_builder
          @ ''-.ankiaddon'')"
    by (simp add: sample_env_def sample_builder_def sample_config_def path_div_def parts_def)
  have h2: "?out \<noteq> []" by simp
  have h3: "path_is_dir (fs sample_exported) (butlast ?out)"
    by (simp add: sample_exported_def path_is_dir_def)
  have h3': "path_is_dir (fs sample_exported) [''repo'', ''build'']"
    using h3 by simp
  have h4: "\<not> path_is_dir (fs sample_exported) ?out"
    by (simp add: sample_exported_def path_is_dir_def sample_dist_def)
  have h5: "?zip = self_path_dist_module sample_builder" by (simp add: sample_builder_def)
  have h6: "?zip \<noteq> []" by simp
  have h7: "list_all plain ?zip" by (simp add: plain_def)
  have h8: "\<not> prefix ?out ?zip" "\<not> prefix ?zip ?out" by simp_all
  have h9: "fs_lookup (fs sample_exported) ?zip = Some ?n"
    by (simp add: sample_exported_def sample_dist_def)
  have h10: "wf_node ?n" by (simp add: plain_def)
  have h11: "readable ?n" by simp
  from empty_targets_name [OF h1 h2 h3 h4 h5 h6 h7 h8 h9 h10 h11]
  have nm: "out_name sample_config ''1.2.3'' [] ''local'' = ''foo-1.2.3-.ankiaddon''"
    and ex: "\<exists>w'. package sample_env sample_builder [] ''local'' sample_exported = (Inr ?out, w')"
    by (auto simp add: sample_builder_def sample_config_def)
  from h1 h3' h4 h7 h9 h10 h11 nm ex show ?thesis by (intro conjI)
qed

text \<open>
  C6, as the code has it. \<open>_package\<close> writes to the final output path, and leaving the
  \<open>with\<close> block closes the archive also when an exception passes through. When a file
  of the subtree cannot be read, \<open>_package\<close> raises \<open>PermissionError\<close>; the output path
  then holds a closed archive of the files before the first unreadable one, a proper
  part of the subtree's files; the closing of the archive is the last event (nothing is
  deleted or renamed afterwards), and no other path is changed. The counterexample runs
  the sample with the unreadable \<open>sub/b.py\<close>: the run fails and leaves at the output
  path the very file that the successful run on the subtree with \<open>a.py\<close> alone leaves.
\<close>

theorem failed_write_leaves_archive:
  assumes "out_path = path_div (path_div (PATH_ROOT E) ''build'')
        (out_name (self_config self) (self_version self) qt_versions disttype)"
    and "out_path \<noteq> []" "path_is_dir (fs w) (butlast out_path)" "\<not> path_is_dir (fs w) out_path"
    and "to_zip = self_path_dist_module self" "to_zip \<noteq> []" "list_all plain to_zip"
    and "\<not> prefix out_path to_zip" "\<not> prefix to_zip out_path"
    and "fs_lookup (fs w) to_zip = Some n" "wf_node n"
    and "r \<noteq> []" "fs_lookup (fs w) (to_zip @ r) = Some (File (Perm False wr) c)"
  shows "\<exists>w' tr. package E self qt_versions disttype w = (Inl PermissionError, w')
     \<and> fs_lookup (fs w') out_path
         = Some (File rw (Zip (map entry_of (written (rel_files n)))))
     \<and> strict_prefix (written (rel_files n)) (rel_files n)
     \<and> log w' = log w @ tr @ [Zip_close out_path]
     \<and> (\<forall>q. \<not> prefix out_path q \<longrightarrow> \<not> prefix q out_path \<longrightarrow>
            fs_lookup (fs w') q = fs_lookup (fs w) q)"
proof -
  from assms(12,13) assms(10) have "(r, Perm False wr, c) \<in> set (rel_files n)"
    using rel_files_mem [OF assms(11), of r "Perm False wr" c] by (simp add: fs_lookup_append)
  then have bad: "\<not> list_all is_readable (rel_files n)"
    by (force simp add: list_all_iff is_readable_def)
  from package_run [OF assms(1-11)] obtain w' where
    w': "package E self qt_versions disttype w
       = (map_sum id (\<lambda>_. out_path) (outcome (rel_files n)), w')"
    "fs_lookup (fs w') out_path = Some (File rw (Zip (map entry_of (written (rel_files n)))))"
    "\<forall>q. \<not> prefix out_path q \<longrightarrow> \<not> prefix q out_path \<longrightarrow>
            fs_lookup (fs w') q = fs_lookup (fs w) q"
    "log w' = log w @ [Log_info ''Packaging add-on...'']
          @ (if path_exists (fs w) out_path then [Unlink out_path] else [])
          @ [Zip_open out_path]
          @ map (write_under to_zip []) (attempted (rel_files n))
          @ [Zip_close out_path]
          @ (if list_all is_readable (rel_files n)
             then [Log_info (''Package saved as ''
                     @ out_name (self_config self) (self_version self) qt_versions disttype),
                   Log_info ''Done.'']
             else [])"
    by blast
  from w'(1) bad have run: "package E self qt_versions disttype w = (Inl PermissionError, w')"
    by (simp add: outcome_def)
  from w'(4) bad have lg: "log w' = log w
      @ ([Log_info ''Packaging add-on...'']
          @ (if path_exists (fs w) out_path then [Unlink out_path] else [])
          @ [Zip_open out_path]
          @ map (write_under to_zip []) (attempted (rel_files n)))
      @ [Zip_close out_path]"
    by simp
  from run w'(2) strict_prefix_written [OF bad] lg w'(3) show ?thesis by blast
qed

theorem failed_write_leaves_archive_witness:
  "[''repo'', ''build'', ''foo-1.2.3-qt6.ankiaddon'']
     = path_div (path_div (PATH_ROOT sample_env) ''build'')
         (out_name (self_config sample_builder) (self_version sample_builder)
            [QtVersion ''qt6''] ''local'')
   \<and> path_is_dir (fs sample_locked) [''repo'', ''build'']
   \<and> \<not> path_is_dir (fs sample_locked) [''repo'', ''build'', ''foo-1.2.3-qt6.ankiaddon'']
   \<and> list_all plain [''repo'', ''build'', ''dist'', ''src'', ''foo'']
   \<and> fs_lookup (fs sample_locked) [''repo'', ''build'', ''dist'', ''src'', ''foo'']
       = Some (Dir [(''a.py'', File rw (Bytes ''a'')),
                    (''sub'', Dir [(''b.py'', File (Perm False True) (Bytes ''b''))])])
   \<and> wf_node (Dir [(''a.py'', File rw (Bytes ''a'')),
                    (''sub'', Dir [(''b.py'', File (Perm False True) (Bytes ''b''))])])
   \<and> fs_lookup (fs sample_locked)
        ([''repo'', ''build'', ''dist'', ''src'', ''foo''] @ [''sub'', ''b.py''])
       = Some (File (Perm False True) (Bytes ''b''))
   \<and> (\<exists>w'. package sample_env sample_builder [QtVersion ''qt6''] ''local'' sample_locked
             = (Inl PermissionError, w')
           \<and> fs_lookup (fs w') [''repo'', ''build'', ''foo-1.2.3-qt6.ankiaddon'']
               = Some (File rw (Zip [(''a.py'', Bytes ''a'')])))"
proof -
  let ?out = "[''repo'', ''build'', ''foo-1.2.3-qt6.ankiaddon'']"
  let ?zip = "[''repo'', ''build'', ''dist'', ''src'', ''foo'']"
  let ?n = "Dir [(''a.py'', File rw (Bytes ''a'')),
                 (''sub'', Dir [(''b.py'', File (Perm False True) (Bytes ''b''))])]"
  have h1: "?out = path_div (path_div (PATH_ROOT sample_env) ''build'')
         (out_name (self_config sample_builder) (self_version sample_builder)
            [QtVersion ''qt6''] ''local'')"
    by (simp add: sample_env_def sample_builder_def sample_config_def out_name_def path_div_def
        parts_def)
  have h2: "?out \<noteq> []" by simp
  have h3: "path_is_dir (fs sample_locked) (butlast ?out)"
    by (simp add: sample_locked_def path_is_dir_def)
  have h3': "path_is_dir (fs sample_locked) [''repo'', ''build'']"
    using h3 by simp
  have h4: "\<not> path_is_dir (fs sample_locked) ?out"
    by (simp add: sample_locked_def path_is_dir_def)
  have h5: "?zip = self_path_dist_module sample_builder" by (simp add: sample_builder_def)
  have h6: "?zip \<noteq> []" by simp
  have h7: "list_all plain ?zip" by (simp add: plain_def)
  have h8: "\<not> prefix ?out ?zip" "\<not> prefix ?zip ?out" by simp_all
  have h9: "fs_lookup (fs sample_locked) ?zip = Some ?n"
    by (simp add: sample_locked_def)
  have h10: "wf_node ?n" by (simp add: plain_def)
  have h11: "[''sub'', ''b.py''] \<noteq> []" by simp
  have h12: "fs_lookup (fs sample_locked) (?zip @ [''sub'', ''b.py'']) = Some (File (Perm False True) (Bytes ''b''))"
    by (simp add: sample_locked_def)
  have ents: "map entry_of (written (rel_files ?n)) = [(''a.py'', Bytes ''a'')]"
    by (simp add: entry_of_def written_def is_readable_def)
  from failed_write_leaves_archive [OF h1 h2 h3 h4 h5 h6 h7 h8 h9 h10 h11 h12]
  have ex: "\<exists>w'. package sample_env sample_builder [QtVersion ''qt6''] ''local'' sample_locked
             = (Inl PermissionError, w')
           \<and> fs_lookup (fs w') ?out = Some (File rw (Zip [(''a.py'', Bytes ''a'')]))"
    unfolding ents by blast
  from h1 h3' h4 h7 h9 h10 h12 ex show ?thesis by (intro conjI)
qed

theorem partial_archive_counterexample:
  "fst (package sample_env sample_builder [QtVersion ''qt6''] ''local'' sample_locked)
     = Inl PermissionError
   \<and> fs_lookup (fs (snd (package sample_env sample_builder [QtVersion ''qt6''] ''local''
                            sample_locked)))
        [''repo'', ''build'', ''foo-1.2.3-qt6.ankiaddon'']
     = Some (File rw (Zip [(''a.py'', Bytes ''a'')]))
   \<and> fst (package sample_env sample_builder [QtVersion ''qt6''] ''local'' sample_small)
     = Inr [''repo'', ''build'', ''foo-1.2.3-qt6.ankiaddon'']
   \<and> fs_lookup (fs (snd (package sample_env sample_builder [QtVersion ''qt6''] ''local''
                            sample_small)))
        [''repo'', ''build'', ''foo-1.2.3-qt6.ankiaddon'']
     = Some (File rw (Zip [(''a.py'', Bytes ''a'')]))"
proof -
  let ?out = "[''repo'', ''build'', ''foo-1.2.3-qt6.ankiaddon'']"
  let ?zip = "[''repo'', ''build'', ''dist'', ''src'', ''foo'']"
  let ?n = "Dir [(''a.py'', File rw (Bytes ''a'')),
                 (''sub'', Dir [(''b.py'', File (Perm False True) (Bytes ''b''))])]"
  let ?m = "Dir [(''a.py'', File rw (Bytes ''a''))]"
  have h1: "?out = path_div (path_div (PATH_ROOT sample_env) ''build'')
         (out_name (self_config sample_builder) (self_version sample_builder)
            [QtVersion ''qt6''] ''local'')"
    by (simp add: sample_env_def sample_builder_def sample_config_def out_name_def path_div_def
        parts_def)
  have h2: "?out \<noteq> []" by simp
  have h5: "?zip = self_path_dist_module sample_builder" by (simp add: sample_builder_def)
  have h6: "?zip \<noteq> []" by simp
  have h7: "list_all plain ?zip" by (simp add: plain_def)
  have h8: "\<not> prefix ?out ?zip" "\<not> prefix ?zip ?out" by simp_all
  have l3: "path_is_dir (fs sample_locked) (butlast ?out)"
    by (simp add: sample_locked_def path_is_dir_def)
  have l4: "\<not> path_is_dir (fs sample_locked) ?out"
    by (simp add: sample_locked_def path_is_dir_def)
  have l9: "fs_lookup (fs sample_locked) ?zip = Some ?n"
    by (simp add: sample_locked_def)
  have l10: "wf_node ?n" by (simp add: plain_def)
  have s3: "path_is_dir (fs sample_small) (butlast ?out)"
    by (simp add: sample_small_def path_is_dir_def)
  have s4: "\<not> path_is_dir (fs sample_small) ?out"
    by (simp add: sample_small_def path_is_dir_def)
  have s9: "fs_lookup (fs sample_small) ?zip = Some ?m"
    by (simp add: sample_small_def)
  have s10: "wf_node ?m" by (simp add: plain_def)
  have el: "map entry_of (written (rel_files ?n)) = [(''a.py'', Bytes ''a'')]"
    "outcome (rel_files ?n) = Inl PermissionError"
    by (simp_all add: entry_of_def written_def outcome_def is_readable_def)
  have es: "map entry_of (written (rel_files ?m)) = [(''a.py'', Bytes ''a'')]"
    "outcome (rel_files ?m) = Inr ()"
    by (simp_all add: entry_of_def written_def outcome_def is_readable_def)
  from package_run [OF h1 h2 l3 l4 h5 h6 h7 h8 l9 l10]
  obtain wl where wl: "package sample_env sample_builder [QtVersion ''qt6''] ''local'' sample_locked
        = (Inl PermissionError, wl)"
    "fs_lookup (fs wl) ?out = Some (File rw (Zip [(''a.py'', Bytes ''a'')]))"
    unfolding el by auto
  from package_run [OF h1 h2 s3 s4 h5 h6 h7 h8 s9 s10]
  obtain ws where ws: "package sample_env sample_builder [QtVersion ''qt6''] ''local'' sample_small
        = (Inr ?out, ws)"
    "fs_lookup (fs ws) ?out = Some (File rw (Zip [(''a.py'', Bytes ''a'')]))"
    unfolding es by auto
  from wl ws show ?thesis by simp
qed

text \<open>
  C7, as the code has it. \<open>_copy_licenses\<close> hands every entry named \<open>LICENSE*\<close> of a
  candidate directory to \<open>shutil.copyfile\<close>, and an error of a copy ends the run. The
  stem of \<open>LICENSE.txt\<close> and of \<open>LICENSE\<close> is \<open>LICENSE\<close>, so both are copied as
  \<open>LICENSE.txt\<close>. The license files are the entries named \<open>LICENSE*\<close> of the candidate
  locations that are directories. When no candidate is a directory, and when there is
  no license file at all, \<open>_copy_licenses\<close> returns without an error and changes
  nothing. When the module's directory exists below \<open>PATH_DIST/src\<close>, every license
  file is a file that can be read, and every target \<open>{stem}.txt\<close> in the module's
  directory is free or a file that can be written, \<open>_copy_licenses\<close> returns, having
  called \<open>copyfile\<close> once for every license file, in order; afterwards each target
  holds the content of the last license file of that target, and no path beside the
  targets has changed. The counterexample is the sample whose export lists a directory
  \<open>LICENSES\<close> before the file \<open>LICENSE\<close>: the copy of the directory raises
  \<open>IsADirectoryError\<close>, and \<open>LICENSE\<close> is not copied; and the sample whose module
  holds a read-only \<open>LICENSE.txt\<close>: the copy raises \<open>PermissionError\<close>, and the old
  content stays.
\<close>

theorem license_copy:
  "stem ''LICENSE.txt'' @ ''.txt'' = ''LICENSE.txt''
   \<and> stem ''LICENSE'' @ ''.txt'' = ''LICENSE.txt''
   \<and> (\<forall>s. s \<in> set (license_sources (fs w) E)
          \<longleftrightarrow> (\<exists>p \<in> set (paths_licenses E). \<exists>es e. fs_lookup (fs w) p = Some (Dir es)
                 \<and> e \<in> set es \<and> prefix ''LICENSE'' (fst e) \<and> s = p @ [fst e]))
   \<and> ((\<forall>p \<in> set (paths_licenses E). \<not> path_is_dir (fs w) p) \<longrightarrow>
         copy_licenses E self w
           = (Inr (), w\<lparr>log := log w @ [Log_info ''Copying licenses...'']\<rparr>))
   \<and> (license_sources (fs w) E = [] \<longrightarrow>
         copy_licenses E self w
           = (Inr (), w\<lparr>log := log w @ [Log_info ''Copying licenses...'']\<rparr>))
   \<and> (self_path_dist_module self = path_div (path_div (PATH_DIST E) ''src'') m
        \<and> take 1 m \<noteq> ''/''
        \<and> path_is_dir (fs w) (self_path_dist_module self)
        \<and> (\<forall>s \<in> set (license_sources (fs w) E). CHR ''/'' \<notin> set (last s)
              \<and> readable_file (fs w) s
              \<and> free_or_writable (fs w) (license_target self s)) \<longrightarrow>
       (\<exists>w'. copy_licenses E self w = (Inr (), w')
          \<and> log w' = log w @ Log_info ''Copying licenses...''
               # map (\<lambda>s. Copyfile s (license_target self s)) (license_sources (fs w) E)
          \<and> (\<forall>s \<in> set (license_sources (fs w) E).
                license_target self s
                  = self_path_dist_module self @ [stem (last s) @ ''.txt'']
              \<and> content_at (fs w') (license_target self s)
                  = content_at (fs w)
                      (last (filter (\<lambda>s'. license_target self s' = license_target self s)
                               (license_sources (fs w) E))))
          \<and> (\<forall>q. (\<forall>s \<in> set (license_sources (fs w) E).
                      \<not> prefix (license_target self s) q \<and> \<not> prefix q (license_target self s))
                 \<longrightarrow> fs_lookup (fs w') q = fs_lookup (fs w) q)))"
proof -
  have st: "stem ''LICENSE.txt'' @ ''.txt'' = ''LICENSE.txt''"
    "stem ''LICENSE'' @ ''.txt'' = ''LICENSE.txt''"
    by (simp_all add: stem_def)
  have mem: "\<forall>s. s \<in> set (license_sources (fs w) E)
          \<longleftrightarrow> (\<exists>p \<in> set (paths_licenses E). \<exists>es e. fs_lookup (fs w) p = Some (Dir es)
                 \<and> e \<in> set es \<and> prefix ''LICENSE'' (fst e) \<and> s = p @ [fst e])"
    by (simp add: license_sources_mem)
  have none: "license_sources (fs w) E = [] \<longrightarrow>
         copy_licenses E self w
           = (Inr (), w\<lparr>log := log w @ [Log_info ''Copying licenses...'']\<rparr>)"
    by (simp add: copy_licenses_none)
  have skip: "(\<forall>p \<in> set (paths_licenses E). \<not> path_is_dir (fs w) p) \<longrightarrow>
         copy_licenses E self w
           = (Inr (), w\<lparr>log := log w @ [Log_info ''Copying licenses...'']\<rparr>)"
  proof
    assume "\<forall>p \<in> set (paths_licenses E). \<not> path_is_dir (fs w) p"
    then have "license_sources (fs w) E = []"
      by (simp add: license_sources_def)
    then show "copy_licenses E self w
           = (Inr (), w\<lparr>log := log w @ [Log_info ''Copying licenses...'']\<rparr>)"
      by (rule copy_licenses_none)
  qed
  have main: "self_path_dist_module self = path_div (path_div (PATH_DIST E) ''src'') m
        \<and> take 1 m \<noteq> ''/''
        \<and> path_is_dir (fs w) (self_path_dist_module self)
        \<and> (\<forall>s \<in> set (license_sources (fs w) E). CHR ''/'' \<notin> set (last s)
              \<and> readable_file (fs w) s
              \<and> free_or_writable (fs w) (license_target self s)) \<longrightarrow>
       (\<exists>w'. copy_licenses E self w = (Inr (), w')
          \<and> log w' = log w @ Log_info ''Copying licenses...''
               # map (\<lambda>s. Copyfile s (license_target self s)) (license_sources (fs w) E)
          \<and> (\<forall>s \<in> set (license_sources (fs w) E).
                license_target self s
                  = self_path_dist_module self @ [stem (last s) @ ''.txt'']
              \<and> content_at (fs w') (license_target self s)
                  = content_at (fs w)
                      (last (filter (\<lambda>s'. license_target self s' = license_target self s)
                               (license_sources (fs w) E))))
          \<and> (\<forall>q. (\<forall>s \<in> set (license_sources (fs w) E).
                      \<not> prefix (license_target self s) q \<and> \<not> prefix q (license_target self s))
                 \<longrightarrow> fs_lookup (fs w') q = fs_lookup (fs w) q))"
  proof (intro impI, elim conjE)
    let ?w0 = "w\<lparr>log := log w @ [Log_info ''Copying licenses...'']\<rparr>"
    let ?srcs = "license_sources (fs w) E"
    let ?T = "license_target self"
    assume form: "self_path_dist_module self = path_div (path_div (PATH_DIST E) ''src'') m"
      "take 1 m \<noteq> ''/''"
      and md: "path_is_dir (fs w) (self_path_dist_module self)"
      and each: "\<forall>s \<in> set ?srcs. CHR ''/'' \<notin> set (last s)
              \<and> readable_file (fs w) s
              \<and> free_or_writable (fs w) (?T s)"
    have md0: "path_is_dir (fs ?w0) (self_path_dist_module self)" using md by simp
    have each0: "\<forall>s \<in> set (license_sources (fs ?w0) E). CHR ''/'' \<notin> set (last s)
              \<and> readable_file (fs ?w0) s
              \<and> free_or_writable (fs ?w0) (?T s)"
      using each by simp
    have flat: "copy_license_dirs self (paths_licenses E) ?w0 = copy_license_files self ?srcs ?w0"
      using copy_license_dirs_flat [OF form md0 each0] by simp
    have each0': "\<forall>s \<in> set ?srcs. CHR ''/'' \<notin> set (last s)
              \<and> readable_file (fs ?w0) s
              \<and> free_or_writable (fs ?w0) (?T s)"
      using each by simp
    have inc: "\<forall>s \<in> set ?srcs. \<forall>x. \<not> prefix (self_path_dist_module self @ [x]) s
        \<and> \<not> prefix s (self_path_dist_module self @ [x])"
    proof (intro ballI allI)
      fix s x assume "s \<in> set ?srcs"
      from sources_apart [OF module_dir_form [OF form] this, of "[x]"]
      show "\<not> prefix (self_path_dist_module self @ [x]) s
        \<and> \<not> prefix s (self_path_dist_module self @ [x])" .
    qed
    from copy_license_files_run [OF md0 each0' inc] obtain w' where
      run: "copy_license_files self ?srcs ?w0 = (Inr (), w')" and
      lg: "log w' = log ?w0 @ map (\<lambda>s. Copyfile s (?T s)) ?srcs" and
      frame: "\<forall>q. (\<forall>s \<in> set ?srcs. \<not> prefix (?T s) q \<and> \<not> prefix q (?T s))
            \<longrightarrow> fs_lookup (fs w') q = fs_lookup (fs ?w0) q" and
      tg: "\<forall>s \<in> set ?srcs. content_at (fs w') (?T s)
            = content_at (fs ?w0) (last (filter (\<lambda>s'. ?T s' = ?T s) ?srcs))"
      by blast
    have r: "copy_licenses E self w = (Inr (), w')"
      using run flat by (simp add: copy_licenses_def bind_def emit_def)
    have l: "log w' = log w @ Log_info ''Copying licenses...''
               # map (\<lambda>s. Copyfile s (?T s)) ?srcs"
      using lg by simp
    have t: "\<forall>s \<in> set ?srcs.
                ?T s = self_path_dist_module self @ [stem (last s) @ ''.txt'']
              \<and> content_at (fs w') (?T s)
                  = content_at (fs w) (last (filter (\<lambda>s'. ?T s' = ?T s) ?srcs))"
    proof
      fix s assume s: "s \<in> set ?srcs"
      with each have "CHR ''/'' \<notin> set (last s)" by simp
      from license_target_form [OF this]
      have f: "?T s = self_path_dist_module self @ [stem (last s) @ ''.txt'']" .
      from tg s have "content_at (fs w') (?T s)
                  = content_at (fs w) (last (filter (\<lambda>s'. ?T s' = ?T s) ?srcs))"
        by (simp add: content_at_def)
      with f show "?T s = self_path_dist_module self @ [stem (last s) @ ''.txt'']
              \<and> content_at (fs w') (?T s)
                  = content_at (fs w) (last (filter (\<lambda>s'. ?T s' = ?T s) ?srcs))"
        by (intro conjI)
    qed
    have fr: "\<forall>q. (\<forall>s \<in> set ?srcs. \<not> prefix (?T s) q \<and> \<not> prefix q (?T s))
                 \<longrightarrow> fs_lookup (fs w') q = fs_lookup (fs w) q"
      using frame by simp
    from r l t fr show "\<exists>w'. copy_licenses E self w = (Inr (), w')
          \<and> log w' = log w @ Log_info ''Copying licenses...''
               # map (\<lambda>s. Copyfile s (?T s)) ?srcs
          \<and> (\<forall>s \<in> set ?srcs.
                ?T s = self_path_dist_module self @ [stem (last s) @ ''.txt'']
              \<and> content_at (fs w') (?T s)
                  = content_at (fs w) (last (filter (\<lambda>s'. ?T s' = ?T s) ?srcs)))
          \<and> (\<forall>q. (\<forall>s \<in> set ?srcs. \<not> prefix (?T s) q \<and> \<not> prefix q (?T s))
                 \<longrightarrow> fs_lookup (fs w') q = fs_lookup (fs w) q)"
      by blast
  qed
  from st mem skip none main show ?thesis by (intro conjI)
qed

theorem license_copy_witness:
  "paths_licenses sample_env
     = [[''repo'', ''build'', ''dist''], [''repo'', ''build'', ''dist'', ''resources'']]
   \<and> \<not> path_is_dir (fs sample_world) [''repo'', ''build'', ''dist'']
   \<and> \<not> path_is_dir (fs sample_world) [''repo'', ''build'', ''dist'', ''resources'']
   \<and> copy_licenses sample_env sample_builder sample_world
       = (Inr (), \<lparr>fs = Dir [(''repo'', Dir [(''build'', Dir [])])],
                   log = [Log_info ''Copying licenses...'']\<rparr>)
   \<and> license_sources (fs sample_licenses) sample_env
       = [[''repo'', ''build'', ''dist'', ''LICENSE''],
          [''repo'', ''build'', ''dist'', ''LICENSE.md''],
          [''repo'', ''build'', ''dist'', ''resources'', ''LICENSE-icons.txt'']]
   \<and> self_path_dist_module sample_builder
       = path_div (path_div (PATH_DIST sample_env) ''src'') ''foo''
   \<and> path_is_dir (fs sample_licenses) (self_path_dist_module sample_builder)
   \<and> list_all (readable_file (fs sample_licenses)) (license_sources (fs sample_licenses) sample_env)
   \<and> list_all (\<lambda>s. free_or_writable (fs sample_licenses) (license_target sample_builder s))
        (license_sources (fs sample_licenses) sample_env)
   \<and> fst (copy_licenses sample_env sample_builder sample_licenses) = Inr ()
   \<and> log (snd (copy_licenses sample_env sample_builder sample_licenses))
       = [Log_info ''Copying licenses...'',
          Copyfile [''repo'', ''build'', ''dist'', ''LICENSE'']
            [''repo'', ''build'', ''dist'', ''src'', ''foo'', ''LICENSE.txt''],
          Copyfile [''repo'', ''build'', ''dist'', ''LICENSE.md'']
            [''repo'', ''build'', ''dist'', ''src'', ''foo'', ''LICENSE.txt''],
          Copyfile [''repo'', ''build'', ''dist'', ''resources'', ''LICENSE-icons.txt'']
            [''repo'', ''build'', ''dist'', ''src'', ''foo'', ''LICENSE-icons.txt'']]
   \<and> content_at (fs (snd (copy_licenses sample_env sample_builder sample_licenses)))
         [''repo'', ''build'', ''dist'', ''src'', ''foo'', ''LICENSE.txt'']
       = Some (Bytes ''markdown'')
   \<and> content_at (fs (snd (copy_licenses sample_env sample_builder sample_licenses)))
         [''repo'', ''build'', ''dist'', ''src'', ''foo'', ''LICENSE-icons.txt'']
       = Some (Bytes ''icons'')"
proof -
  let ?s1 = "[''repo'', ''build'', ''dist'', ''LICENSE'']"
  let ?s2 = "[''repo'', ''build'', ''dist'', ''LICENSE.md'']"
  let ?s3 = "[''repo'', ''build'', ''dist'', ''resources'', ''LICENSE-icons.txt'']"
  let ?t1 = "[''repo'', ''build'', ''dist'', ''src'', ''foo'', ''LICENSE.txt'']"
  let ?t3 = "[''repo'', ''build'', ''dist'', ''src'', ''foo'', ''LICENSE-icons.txt'']"
  let ?run = "copy_licenses sample_env sample_builder sample_licenses"
  have a1: "\<forall>p \<in> set (paths_licenses sample_env). \<not> path_is_dir (fs sample_world) p"
    by (simp add: paths_licenses_eq sample_env_def sample_world_def path_is_dir_def)
  have srcs: "license_sources (fs sample_licenses) sample_env = [?s1, ?s2, ?s3]"
    by (simp add: license_sources_def paths_licenses_eq sample_env_def sample_licenses_def
        path_is_dir_def glob_prefix_def)
  have form: "self_path_dist_module sample_builder
       = path_div (path_div (PATH_DIST sample_env) ''src'') ''foo''"
    by (simp add: sample_builder_def sample_env_def path_div_def parts_def)
  have md: "path_is_dir (fs sample_licenses) (self_path_dist_module sample_builder)"
    by (simp add: sample_builder_def sample_licenses_def path_is_dir_def)
  have tgt: "license_target sample_builder ?s1 = ?t1" "license_target sample_builder ?s2 = ?t1"
    "license_target sample_builder ?s3 = ?t3"
    by (simp_all add: license_target_def sample_builder_def stem_def path_div_def parts_def)
  have rd: "list_all (readable_file (fs sample_licenses)) (license_sources (fs sample_licenses) sample_env)"
    unfolding srcs by (simp add: readable_file_def sample_licenses_def)
  have fw: "list_all (\<lambda>s. free_or_writable (fs sample_licenses) (license_target sample_builder s))
        (license_sources (fs sample_licenses) sample_env)"
    unfolding srcs by (simp add: tgt) (simp add: free_or_writable_def sample_licenses_def)
  have each: "\<forall>s \<in> set (license_sources (fs sample_licenses) sample_env).
      CHR ''/'' \<notin> set (last s) \<and> readable_file (fs sample_licenses) s
      \<and> free_or_writable (fs sample_licenses) (license_target sample_builder s)"
    using rd fw unfolding srcs by simp
  have cont: "content_at (fs sample_licenses) ?s2 = Some (Bytes ''markdown'')"
    "content_at (fs sample_licenses) ?s3 = Some (Bytes ''icons'')"
    by (simp_all add: content_at_def sample_licenses_def)
  note th = license_copy [of sample_world sample_env sample_builder "''foo''"]
    and th' = license_copy [of sample_licenses sample_env sample_builder "''foo''"]
  from th a1 have r1: "copy_licenses sample_env sample_builder sample_world
       = (Inr (), \<lparr>fs = Dir [(''repo'', Dir [(''build'', Dir [])])],
                   log = [Log_info ''Copying licenses...'']\<rparr>)"
    by (simp add: sample_world_def)
  from th' form md each obtain w' where
    run: "?run = (Inr (), w')" and
    lg: "log w' = log sample_licenses @ Log_info ''Copying licenses...''
         # map (\<lambda>s. Copyfile s (license_target sample_builder s))
             (license_sources (fs sample_licenses) sample_env)" and
    tg: "\<forall>s \<in> set (license_sources (fs sample_licenses) sample_env).
           content_at (fs w') (license_target sample_builder s)
             = content_at (fs sample_licenses)
                 (last (filter (\<lambda>s'. license_target sample_builder s' = license_target sample_builder s)
                          (license_sources (fs sample_licenses) sample_env)))"
    by auto
  from run have r2: "fst ?run = Inr ()" and w': "snd ?run = w'" by simp_all
  from lg have r3: "log (snd ?run) = [Log_info ''Copying licenses...'',
          Copyfile ?s1 ?t1, Copyfile ?s2 ?t1, Copyfile ?s3 ?t3]"
    unfolding w' srcs by (simp add: tgt sample_licenses_def)
  from tg have "content_at (fs w') (license_target sample_builder ?s1)
      = content_at (fs sample_licenses)
          (last (filter (\<lambda>s'. license_target sample_builder s' = license_target sample_builder ?s1)
                   [?s1, ?s2, ?s3]))"
    unfolding srcs by simp
  then have r4: "content_at (fs (snd ?run)) ?t1 = Some (Bytes ''markdown'')"
    unfolding w' by (simp add: tgt cont)
  from tg have "content_at (fs w') (license_target sample_builder ?s3)
      = content_at (fs sample_licenses)
          (last (filter (\<lambda>s'. license_target sample_builder s' = license_target sample_builder ?s3)
                   [?s1, ?s2, ?s3]))"
    unfolding srcs by simp
  then have r5: "content_at (fs (snd ?run)) ?t3 = Some (Bytes ''icons'')"
    unfolding w' by (simp add: tgt cont)
  have pl: "paths_licenses sample_env
     = [[''repo'', ''build'', ''dist''], [''repo'', ''build'', ''dist'', ''resources'']]"
    by (simp add: paths_licenses_eq sample_env_def)
  from a1 have a2: "\<not> path_is_dir (fs sample_world) [''repo'', ''build'', ''dist'']"
    and a3: "\<not> path_is_dir (fs sample_world) [''repo'', ''build'', ''dist'', ''resources'']"
    unfolding pl by simp_all
  from pl a2 a3 r1 srcs form md rd fw r2 r3 r4 r5 show ?thesis by (intro conjI)
qed

theorem license_directory_counterexample:
  "license_sources (fs sample_reuse) sample_env
     = [[''repo'', ''build'', ''dist'', ''LICENSES''], [''repo'', ''build'', ''dist'', ''LICENSE'']]
   \<and> fs_lookup (fs sample_reuse) [''repo'', ''build'', ''dist'', ''LICENSE'']
       = Some (File rw (Bytes ''license''))
   \<and> fs_lookup (fs sample_reuse) [''repo'', ''build'', ''dist'', ''src'', ''foo''] = Some (Dir [])
   \<and> self_path_dist_module sample_builder = [''repo'', ''build'', ''dist'', ''src'', ''foo'']
   \<and> copy_licenses sample_env sample_builder sample_reuse
       = (Inl IsADirectoryError,
          \<lparr>fs = fs sample_reuse,
           log = [Log_info ''Copying licenses...'',
                  Copyfile [''repo'', ''build'', ''dist'', ''LICENSES'']
                    [''repo'', ''build'', ''dist'', ''src'', ''foo'', ''LICENSES.txt'']]\<rparr>)
   \<and> fs_lookup (fs (snd (copy_licenses sample_env sample_builder sample_reuse)))
         [''repo'', ''build'', ''dist'', ''src'', ''foo'', ''LICENSE.txt'']
       = None
   \<and> license_sources (fs sample_readonly) sample_env
       = [[''repo'', ''build'', ''dist'', ''LICENSE'']]
   \<and> fs_lookup (fs sample_readonly) [''repo'', ''build'', ''dist'', ''LICENSE'']
       = Some (File rw (Bytes ''license''))
   \<and> copy_licenses sample_env sample_builder sample_readonly
       = (Inl PermissionError,
          \<lparr>fs = fs sample_readonly,
           log = [Log_info ''Copying licenses...'',
                  Copyfile [''repo'', ''build'', ''dist'', ''LICENSE'']
                    [''repo'', ''build'', ''dist'', ''src'', ''foo'', ''LICENSE.txt'']]\<rparr>)
   \<and> fs_lookup (fs (snd (copy_licenses sample_env sample_builder sample_readonly)))
         [''repo'', ''build'', ''dist'', ''src'', ''foo'', ''LICENSE.txt'']
       = Some (File (Perm True False) (Bytes ''old''))"
  by (simp add: license_sources_def copy_licenses_def paths_licenses_def
        bind_def emit_def effect_def return_def Let_def
        sample_env_def sample_builder_def sample_reuse_def sample_readonly_def
        path_div_def parts_def path_is_dir_def path_exists_def glob_prefix_def copyfile_def
        write_file_def stem_def)
end
